theory Spec2Isabelle
  imports Main "HOL-Library.AList"
begin

section \<open>The credentials manager of aws\_tui.py\<close>

text \<open>
  The backend of \<^verbatim>\<open>src/aws_tui.py\<close> is the class \<^verbatim>\<open>AwsCredentialsManager\<close>
  (lines 18 to 81). It keeps one \<^verbatim>\<open>configparser.ConfigParser()\<close> object for
  the lifetime of a manager, reads the credentials file into it at the start of every
  operation, and writes the whole parser state back after a mutation, after copying
  the file to a sibling backup.

  Every method of the class is a few calls into the parser object, so the embedding has
  two layers: the parser object as Python 3.11 defines it (its state, the section and
  option operations, value interpolation, the line reader and the writer), and on top of
  it the four methods of the manager, transcribed call by call.

  Strings are lists of characters. The character tests below (\<open>isspace\<close>, \<open>lower\<close>)
  are Python's on the ASCII range; a character above 127 is taken as an ordinary
  character that is neither white space nor a cased letter.
\<close>

subsection \<open>Python string operations\<close>

definition NL :: char where "NL = CHR 0x0A"
definition CR :: char where "CR = CHR 0x0D"
definition TAB :: char where "TAB = CHR 0x09"

text \<open>\<^verbatim>\<open>str.isspace\<close> and the regular expression class \<^verbatim>\<open>\s\<close> on one character.\<close>

definition isspace :: "char \<Rightarrow> bool" where
  "isspace c = (let n = (of_char c :: nat) in (9 \<le> n \<and> n \<le> 13) \<or> (28 \<le> n \<and> n \<le> 32))"

definition lower_char :: "char \<Rightarrow> char" where
  "lower_char c = (let n = (of_char c :: nat) in if 65 \<le> n \<and> n \<le> 90 then char_of (n + 32) else c)"

definition lower :: "string \<Rightarrow> string" where
  "lower s = map lower_char s"

definition lstrip :: "string \<Rightarrow> string" where
  "lstrip s = dropWhile isspace s"

definition rstrip :: "string \<Rightarrow> string" where
  "rstrip s = rev (dropWhile isspace (rev s))"

definition strip :: "string \<Rightarrow> string" where
  "strip s = rstrip (lstrip s)"

text \<open>\<^verbatim>\<open>'\n'.join(parts)\<close>.\<close>

fun join_nl :: "string list \<Rightarrow> string" where
  "join_nl [] = []"
| "join_nl [l] = l"
| "join_nl (l # m # ls) = l @ NL # join_nl (m # ls)"

text \<open>\<^verbatim>\<open>value.replace('\n', '\n\t')\<close>.\<close>

fun replace_nl :: "string \<Rightarrow> string" where
  "replace_nl [] = []"
| "replace_nl (c # cs) = (if c = NL then NL # TAB # replace_nl cs else c # replace_nl cs)"

text \<open>
  A file opened in text mode is read with universal newlines: \<^verbatim>\<open>\r\n\<close> and a lone
  \<^verbatim>\<open>\r\<close> both arrive as \<^verbatim>\<open>\n\<close>. Writing (on POSIX) translates nothing.
\<close>

fun universal_newlines :: "string \<Rightarrow> string" where
  "universal_newlines [] = []"
| "universal_newlines [c] = (if c = CR then [NL] else [c])"
| "universal_newlines (c # d # cs) =
     (if c = CR then (if d = NL then NL # universal_newlines cs else NL # universal_newlines (d # cs))
      else c # universal_newlines (d # cs))"

text \<open>
  \<^verbatim>\<open>for line in fp\<close>: the lines of the text, each without its terminating
  \<^verbatim>\<open>\n\<close> (the reader only ever strips a line or measures its leading white space, so
  the terminator is never observed). Text after the last terminator is a line of its own
  only when it is not empty.
\<close>

fun lines_of :: "string \<Rightarrow> string list" where
  "lines_of [] = []"
| "lines_of (c # cs) =
     (if c = NL then [] # lines_of cs
      else (case lines_of cs of [] \<Rightarrow> [[c]] | l # ls \<Rightarrow> (c # l) # ls))"

subsection \<open>The state of a \<^verbatim>\<open>ConfigParser\<close>\<close>

text \<open>
  A Python \<^verbatim>\<open>dict\<close> keeps its keys in insertion order; assigning to a key that is
  present keeps its place, assigning to a new key appends it. That is an association
  list under \<^const>\<open>AList.update\<close>, \<^const>\<open>AList.delete\<close> and \<^const>\<open>map_of\<close>.

  The parser holds \<^verbatim>\<open>_defaults\<close>, the options of the special section
  \<^verbatim>\<open>[DEFAULT]\<close>, and \<^verbatim>\<open>_sections\<close>, the other sections by name.
\<close>

datatype error =
    ValueError | KeyError | OSError
  | DuplicateSectionError | DuplicateOptionError | MissingSectionHeaderError | ParsingError
  | NoSectionError | NoOptionError
  | InterpolationSyntaxError | InterpolationMissingOptionError | InterpolationDepthError

type_synonym 'v dict = "(string \<times> 'v) list"

record config =
  p_defaults :: "string dict"
  p_sections :: "(string dict) dict"

definition default_section :: string where
  "default_section = ''DEFAULT''"

text \<open>\<^verbatim>\<open>configparser.ConfigParser()\<close>: no defaults, no sections.\<close>

definition ConfigParser :: config where
  "ConfigParser = \<lparr>p_defaults = [], p_sections = []\<rparr>"

definition sections :: "config \<Rightarrow> string list" where
  "sections c = map fst (p_sections c)"

definition has_section :: "config \<Rightarrow> string \<Rightarrow> bool" where
  "has_section c section = (section \<in> set (map fst (p_sections c)))"

text \<open>\<^verbatim>\<open>key in parser\<close> (\<^verbatim>\<open>__contains__\<close>): the default section always counts.\<close>

definition contains :: "config \<Rightarrow> string \<Rightarrow> bool" where
  "contains c key = (key = default_section \<or> has_section c key)"

definition add_section :: "string \<Rightarrow> config \<Rightarrow> error + config" where
  "add_section section c =
     (if section = default_section then Inl ValueError
      else if section \<in> set (map fst (p_sections c)) then Inl DuplicateSectionError
      else Inr (c\<lparr>p_sections := AList.update section [] (p_sections c)\<rparr>))"

definition remove_section :: "string \<Rightarrow> config \<Rightarrow> config" where
  "remove_section section c = c\<lparr>p_sections := AList.delete section (p_sections c)\<rparr>"

definition optionxform :: "string \<Rightarrow> string" where
  "optionxform optionstr = lower optionstr"

subsection \<open>Interpolation (\<^verbatim>\<open>BasicInterpolation\<close>)\<close>

text \<open>
  \<^verbatim>\<open>_KEYCRE = re.compile(r"%\(([^)]+)\)s")\<close>, matched at the start of a string:
  the name between the brackets and the text after the match.
\<close>

definition keycre_match :: "string \<Rightarrow> (string \<times> string) option" where
  "keycre_match s =
     (case s of
        a # b # r \<Rightarrow>
          if a = CHR ''%'' \<and> b = CHR ''('' then
            (case dropWhile (\<lambda>c. c \<noteq> CHR '')'') r of
               p # q # rest \<Rightarrow>
                 if takeWhile (\<lambda>c. c \<noteq> CHR '')'') r \<noteq> [] \<and> q = CHR ''s''
                 then Some (takeWhile (\<lambda>c. c \<noteq> CHR '')'') r, rest) else None
             | _ \<Rightarrow> None)
          else None
      | _ \<Rightarrow> None)"

lemma keycre_match_shorter:
  assumes "keycre_match s = Some (name, rest)"
  shows "length rest < length s"
proof -
  have d: "length (dropWhile P r) \<le> length r" for P and r :: string
    by (induction r) auto
  from assms obtain a b r p q where s: "s = a # b # r"
    and dw: "dropWhile (\<lambda>c. c \<noteq> CHR '')'') r = p # q # rest"
    by (auto simp: keycre_match_def split: list.splits if_splits)
  from d [of "\<lambda>c. c \<noteq> CHR '')''" r] dw have "length rest < length r" by simp
  with s show ?thesis by simp
qed

text \<open>\<^verbatim>\<open>value.replace('%%', '')\<close> and \<^verbatim>\<open>_KEYCRE.sub('', value)\<close>.\<close>

fun remove_escaped :: "string \<Rightarrow> string" where
  "remove_escaped (a # b # r) =
     (if a = CHR ''%'' \<and> b = CHR ''%'' then remove_escaped r else a # remove_escaped (b # r))"
| "remove_escaped s = s"

function keycre_sub :: "string \<Rightarrow> string" where
  "keycre_sub [] = []"
| "keycre_sub (c # cs) =
     (case keycre_match (c # cs) of
        Some (name, rest) \<Rightarrow> keycre_sub rest
      | None \<Rightarrow> c # keycre_sub cs)"
  by pat_completeness auto
termination
  by (relation "measure length") (auto dest: keycre_match_shorter)

definition before_set :: "string \<Rightarrow> error + string" where
  "before_set v =
     (if CHR ''%'' \<in> set (keycre_sub (remove_escaped v)) then Inl ValueError else Inr v)"

text \<open>
  \<^verbatim>\<open>_interpolate_some\<close>: \<open>m\<close> is the lookup of the section chained with the
  defaults, \<open>fuel\<close> is \<^verbatim>\<open>MAX_INTERPOLATION_DEPTH + 1 - depth\<close>, so the first call
  has fuel 10 and the call at depth 11 raises.
\<close>

function interpolate_some :: "(string \<Rightarrow> string option) \<Rightarrow> nat \<Rightarrow> string \<Rightarrow> error + string" where
  "interpolate_some m 0 rest = Inl InterpolationDepthError"
| "interpolate_some m (Suc d) [] = Inr []"
| "interpolate_some m (Suc d) (c # cs) =
     (if c \<noteq> CHR ''%'' then
        (case interpolate_some m (Suc d) cs of Inl x \<Rightarrow> Inl x | Inr a \<Rightarrow> Inr (c # a))
      else if cs \<noteq> [] \<and> hd cs = CHR ''%'' then
        (case interpolate_some m (Suc d) (tl cs) of Inl x \<Rightarrow> Inl x | Inr a \<Rightarrow> Inr (CHR ''%'' # a))
      else if cs \<noteq> [] \<and> hd cs = CHR ''('' then
        (case keycre_match (c # cs) of
           None \<Rightarrow> Inl InterpolationSyntaxError
         | Some (name, rest) \<Rightarrow>
             (case m (optionxform name) of
                None \<Rightarrow> Inl InterpolationMissingOptionError
              | Some v \<Rightarrow>
                  (case (if CHR ''%'' \<in> set v then interpolate_some m d v else Inr v) of
                     Inl x \<Rightarrow> Inl x
                   | Inr a \<Rightarrow>
                       (case interpolate_some m (Suc d) rest of
                          Inl x \<Rightarrow> Inl x
                        | Inr b \<Rightarrow> Inr (a @ b)))))
      else Inl InterpolationSyntaxError)"
  by pat_completeness auto
termination
  by (relation "measures [\<lambda>(m, d, rest). d, \<lambda>(m, d, rest). length rest]")
     (auto dest: keycre_match_shorter)

definition before_get :: "(string \<Rightarrow> string option) \<Rightarrow> string \<Rightarrow> error + string" where
  "before_get m v = interpolate_some m 10 v"

subsection \<open>Options: \<^verbatim>\<open>set\<close>, \<^verbatim>\<open>get\<close>, \<^verbatim>\<open>options\<close> and the section proxy\<close>

text \<open>
  \<^verbatim>\<open>ConfigParser.set(section, option, value)\<close>. An empty section name addresses the
  defaults, like \<^verbatim>\<open>DEFAULT\<close> itself.
\<close>

definition cp_set :: "string \<Rightarrow> string \<Rightarrow> string \<Rightarrow> config \<Rightarrow> error + config" where
  "cp_set section option v c =
     (case (if v \<noteq> [] then before_set v else Inr v) of
        Inl x \<Rightarrow> Inl x
      | Inr v' \<Rightarrow>
          if section = [] \<or> section = default_section then
            Inr (c\<lparr>p_defaults := AList.update (optionxform option) v' (p_defaults c)\<rparr>)
          else
            (case map_of (p_sections c) section of
               None \<Rightarrow> Inl NoSectionError
             | Some sectdict \<Rightarrow>
                 Inr (c\<lparr>p_sections :=
                   AList.update section (AList.update (optionxform option) v' sectdict) (p_sections c)\<rparr>)))"

text \<open>\<^verbatim>\<open>_unify_values\<close>: the section's options, then the defaults.\<close>

definition unify_values :: "config \<Rightarrow> string \<Rightarrow> error + (string \<Rightarrow> string option)" where
  "unify_values c section =
     (case map_of (p_sections c) section of
        Some sectiondict \<Rightarrow> Inr (map_of (sectiondict @ p_defaults c))
      | None \<Rightarrow>
          if section \<noteq> default_section then Inl NoSectionError
          else Inr (map_of (p_defaults c)))"

definition cp_get :: "config \<Rightarrow> string \<Rightarrow> string \<Rightarrow> error + string" where
  "cp_get c section option =
     (case unify_values c section of
        Inl x \<Rightarrow> Inl x
      | Inr d \<Rightarrow>
          (case d (optionxform option) of
             None \<Rightarrow> Inl NoOptionError
           | Some v \<Rightarrow> before_get d v))"

definition has_option :: "config \<Rightarrow> string \<Rightarrow> string \<Rightarrow> bool" where
  "has_option c section option =
     (if section = [] \<or> section = default_section then
        optionxform option \<in> set (map fst (p_defaults c))
      else
        (case map_of (p_sections c) section of
           None \<Rightarrow> False
         | Some sectdict \<Rightarrow>
             optionxform option \<in> set (map fst sectdict)
             \<or> optionxform option \<in> set (map fst (p_defaults c))))"

text \<open>\<^verbatim>\<open>options(section)\<close>: the section's own keys, then the default keys it lacks.\<close>

definition options :: "config \<Rightarrow> string \<Rightarrow> error + string list" where
  "options c section =
     (case map_of (p_sections c) section of
        None \<Rightarrow> Inl NoSectionError
      | Some sectdict \<Rightarrow>
          Inr (map fst sectdict @ filter (\<lambda>k. k \<notin> set (map fst sectdict)) (map fst (p_defaults c))))"

text \<open>
  \<^verbatim>\<open>parser[key]\<close> gives the proxy of a section, or raises. A proxy is its section's
  name; iterating it lists \<^verbatim>\<open>_options()\<close>, reading a key goes through
  \<^verbatim>\<open>has_option\<close> and \<^verbatim>\<open>get\<close>, writing one through \<^verbatim>\<open>set\<close>.
\<close>

definition getitem :: "config \<Rightarrow> string \<Rightarrow> error + string" where
  "getitem c key =
     (if key \<noteq> default_section \<and> \<not> has_section c key then Inl KeyError else Inr key)"

definition proxy_options :: "config \<Rightarrow> string \<Rightarrow> error + string list" where
  "proxy_options c name =
     (if name \<noteq> default_section then options c name else Inr (map fst (p_defaults c)))"

definition proxy_getitem :: "config \<Rightarrow> string \<Rightarrow> string \<Rightarrow> error + string" where
  "proxy_getitem c name key =
     (if \<not> has_option c name key then Inl KeyError else cp_get c name key)"

definition proxy_setitem :: "string \<Rightarrow> string \<Rightarrow> string \<Rightarrow> config \<Rightarrow> error + config" where
  "proxy_setitem name key v c = cp_set name key v c"

subsection \<open>Reading: \<^verbatim>\<open>_read\<close>\<close>

text \<open>
  While a file is read, the value of an option met in that file is the list of its
  lines; \<^verbatim>\<open>_join_multiline_values\<close> joins every such list at the end. Values that
  were in the parser before stay strings.
\<close>

datatype val = Str string | Lines "string list"

text \<open>The dictionary \<^verbatim>\<open>cursect\<close> refers to: none yet, the defaults, or a section.\<close>

datatype cursect = NoSect | Defaults | Sect string

text \<open>
  The local variables of \<^verbatim>\<open>_read\<close> and the two dictionaries of the parser.
  \<open>optname\<close> is only ever tested for truth and used as a key, so \<^verbatim>\<open>None\<close> and
  the empty name are both the empty string; \<open>e\<close> says a \<^verbatim>\<open>ParsingError\<close> is
  pending. \<open>added_sections\<close> and \<open>added_options\<close> are the two kinds of
  elements of \<^verbatim>\<open>elements_added\<close>.
\<close>

record rstate =
  r_defaults :: "val dict"
  r_sections :: "(val dict) dict"
  added_sections :: "string list"
  added_options :: "(string \<times> string) list"
  cursect :: cursect
  sectname :: string
  optname :: string
  indent_level :: nat
  e :: bool

definition init_rstate :: "config \<Rightarrow> rstate" where
  "init_rstate c =
     \<lparr>r_defaults = map (\<lambda>(k, v). (k, Str v)) (p_defaults c),
      r_sections = map (\<lambda>(n, d). (n, map (\<lambda>(k, v). (k, Str v)) d)) (p_sections c),
      added_sections = [], added_options = [],
      cursect = NoSect, sectname = [], optname = [], indent_level = 0, e = False\<rparr>"

text \<open>\<^verbatim>\<open>cursect[optname] = [optval]\<close> and \<^verbatim>\<open>cursect[optname].append(value)\<close>.\<close>

definition cursect_set :: "string \<Rightarrow> val \<Rightarrow> rstate \<Rightarrow> rstate" where
  "cursect_set k v st =
     (case cursect st of
        NoSect \<Rightarrow> st
      | Defaults \<Rightarrow> st\<lparr>r_defaults := AList.update k v (r_defaults st)\<rparr>
      | Sect n \<Rightarrow> st\<lparr>r_sections := AList.map_entry n (AList.update k v) (r_sections st)\<rparr>)"

definition append_line :: "string \<Rightarrow> val \<Rightarrow> val" where
  "append_line l v = (case v of Lines ls \<Rightarrow> Lines (ls @ [l]) | Str s \<Rightarrow> Str s)"

definition cursect_append :: "string \<Rightarrow> rstate \<Rightarrow> rstate" where
  "cursect_append l st =
     (case cursect st of
        NoSect \<Rightarrow> st
      | Defaults \<Rightarrow> st\<lparr>r_defaults := AList.map_entry (optname st) (append_line l) (r_defaults st)\<rparr>
      | Sect n \<Rightarrow>
          st\<lparr>r_sections :=
            AList.map_entry n (AList.map_entry (optname st) (append_line l)) (r_sections st)\<rparr>)"

text \<open>
  \<^verbatim>\<open>SECTCRE.match(value)\<close> for \<^verbatim>\<open>\[(?P<header>.+)\]\<close>: an opening bracket,
  then as much as possible up to a closing bracket, and the header is not empty.
\<close>

definition sectcre_match :: "string \<Rightarrow> string option" where
  "sectcre_match v =
     (case v of
        [] \<Rightarrow> None
      | a # r \<Rightarrow>
          if a = CHR ''['' \<and> CHR '']'' \<in> set r
             \<and> rev (tl (dropWhile (\<lambda>c. c \<noteq> CHR '']'') (rev r))) \<noteq> []
          then Some (rev (tl (dropWhile (\<lambda>c. c \<noteq> CHR '']'') (rev r))))
          else None)"

text \<open>
  \<^verbatim>\<open>OPTCRE.match(value)\<close> for \<^verbatim>\<open>(?P<option>.*?)\s*(?P<vi>=|:)\s*(?P<value>.*)$\<close>:
  the option is what stands before the first delimiter, without the white space in
  front of the delimiter; the value is what follows it, without leading white space.
\<close>

definition is_delimiter :: "char \<Rightarrow> bool" where
  "is_delimiter c = (c = CHR ''='' \<or> c = CHR '':'')"

definition optcre_match :: "string \<Rightarrow> (string \<times> string) option" where
  "optcre_match v =
     (if \<exists>c \<in> set v. is_delimiter c then
        Some (rstrip (takeWhile (\<lambda>c. \<not> is_delimiter c) v),
              lstrip (tl (dropWhile (\<lambda>c. \<not> is_delimiter c) v)))
      else None)"

text \<open>\<^verbatim>\<open>line.strip().startswith(prefix)\<close> for the comment prefixes \<^verbatim>\<open>#\<close> and \<^verbatim>\<open>;\<close>.\<close>

definition is_comment :: "string \<Rightarrow> bool" where
  "is_comment line =
     (case strip line of [] \<Rightarrow> False | c # _ \<Rightarrow> c = CHR ''#'' \<or> c = CHR '';'')"

text \<open>
  One turn of the loop of \<^verbatim>\<open>_read\<close>, in the order of the source: the comment test,
  the empty line, the continuation line, the section header, the option line. An
  exception raised inside the loop is \<open>Inl\<close>; none of them is raised after the line
  has changed a dictionary.
\<close>

definition read_line :: "string \<Rightarrow> rstate \<Rightarrow> error + rstate" where
  "read_line line st =
     (let v = (if is_comment line then [] else strip line) in
      if v = [] then
        (if \<not> is_comment line \<and> cursect st \<noteq> NoSect \<and> optname st \<noteq> []
         then Inr (cursect_append [] st) else Inr st)
      else
        (let cur_indent_level = length (takeWhile isspace line) in
         if cursect st \<noteq> NoSect \<and> optname st \<noteq> [] \<and> cur_indent_level > indent_level st
         then Inr (cursect_append v st)
         else
           (let st1 = st\<lparr>indent_level := cur_indent_level\<rparr> in
            case sectcre_match v of
              Some header \<Rightarrow>
                if header \<in> set (map fst (r_sections st1)) then
                  (if header \<in> set (added_sections st1) then Inl DuplicateSectionError
                   else Inr (st1\<lparr>cursect := Sect header, sectname := header,
                                 added_sections := header # added_sections st1,
                                 optname := []\<rparr>))
                else if header = default_section then
                  Inr (st1\<lparr>cursect := Defaults, sectname := header, optname := []\<rparr>)
                else
                  Inr (st1\<lparr>r_sections := AList.update header [] (r_sections st1),
                           cursect := Sect header, sectname := header,
                           added_sections := header # added_sections st1,
                           optname := []\<rparr>)
            | None \<Rightarrow>
                if cursect st1 = NoSect then Inl MissingSectionHeaderError
                else
                  (case optcre_match v of
                     Some (oname, oval) \<Rightarrow>
                       (let st2 = st1\<lparr>e := (e st1 \<or> oname = [])\<rparr>;
                            oname' = optionxform (rstrip oname) in
                        if (sectname st2, oname') \<in> set (added_options st2)
                        then Inl DuplicateOptionError
                        else Inr (cursect_set oname' (Lines [strip oval])
                               (st2\<lparr>optname := oname',
                                    added_options := (sectname st2, oname') # added_options st2\<rparr>)))
                   | None \<Rightarrow> Inr (st1\<lparr>e := True\<rparr>)))))"

text \<open>The loop: it stops at the first exception, with the dictionaries as they are then.\<close>

fun read_lines :: "string list \<Rightarrow> rstate \<Rightarrow> error option \<times> rstate" where
  "read_lines [] st = (None, st)"
| "read_lines (l # ls) st =
     (case read_line l st of
        Inl x \<Rightarrow> (Some x, st)
      | Inr st' \<Rightarrow> read_lines ls st')"

text \<open>\<^verbatim>\<open>_join_multiline_values\<close>, which runs in the \<^verbatim>\<open>finally\<close> clause.\<close>

definition join_value :: "val \<Rightarrow> string" where
  "join_value v = (case v of Lines ls \<Rightarrow> rstrip (join_nl ls) | Str s \<Rightarrow> s)"

definition join_multiline_values :: "rstate \<Rightarrow> config" where
  "join_multiline_values st =
     \<lparr>p_defaults = map (\<lambda>(k, v). (k, join_value v)) (r_defaults st),
      p_sections = map (\<lambda>(n, d). (n, map (\<lambda>(k, v). (k, join_value v)) d)) (r_sections st)\<rparr>"

text \<open>
  \<^verbatim>\<open>_read(fp, fpname)\<close> on the text of the file: the parser afterwards, and the
  exception that leaves \<^verbatim>\<open>_read\<close>, if any.
\<close>

definition read_text :: "string \<Rightarrow> config \<Rightarrow> config \<times> error option" where
  "read_text text c =
     (case read_lines (lines_of (universal_newlines text)) (init_rstate c) of
        (x, st) \<Rightarrow>
          (join_multiline_values st,
           (case x of
              Some err \<Rightarrow> Some err
            | None \<Rightarrow> if e st then Some ParsingError else None)))"

text \<open>
  \<^verbatim>\<open>read(filename)\<close>: a file that cannot be opened is skipped silently. The content
  of a file is \<open>None\<close> when the file does not exist.
\<close>

definition cp_read :: "string option \<Rightarrow> config \<Rightarrow> config \<times> error option" where
  "cp_read content c = (case content of None \<Rightarrow> (c, None) | Some text \<Rightarrow> read_text text c)"

subsection \<open>Writing: \<^verbatim>\<open>write\<close>\<close>

definition write_option :: "string \<times> string \<Rightarrow> string" where
  "write_option kv = fst kv @ '' = '' @ replace_nl (snd kv) @ [NL]"

definition write_section :: "string \<Rightarrow> string dict \<Rightarrow> string" where
  "write_section section_name section_items =
     ''['' @ section_name @ '']'' @ [NL] @ concat (map write_option section_items) @ [NL]"

definition cp_write :: "config \<Rightarrow> string" where
  "cp_write c =
     (if p_defaults c \<noteq> [] then write_section default_section (p_defaults c) else [])
     @ concat (map (\<lambda>(n, d). write_section n d) (p_sections c))"

subsection \<open>The manager and its files\<close>

text \<open>
  What a method of \<^verbatim>\<open>AwsCredentialsManager\<close> can see and change: the parser
  object \<^verbatim>\<open>self.config\<close>, the file at \<^verbatim>\<open>self.path\<close> and the file at
  \<^verbatim>\<open>self.path.with_suffix(".bak")\<close> (the content of each, \<open>None\<close> when the file
  does not exist; the two paths are taken to be different files). \<open>write_fails_at\<close> is
  the environment's part in \<^verbatim>\<open>open(self.path, "w")\<close> followed by
  \<^verbatim>\<open>self.config.write(f)\<close>: \<open>None\<close> when the storage takes the whole text,
  \<open>Some k\<close> when it takes \<open>k\<close> characters and then fails.
\<close>

record world =
  config :: config
  cred_file :: "string option"
  bak_file :: "string option"
  write_fails_at :: "nat option"

text \<open>A method returns a value or raises; either way it leaves a world behind.\<close>

datatype 'a result = Returns 'a | Raises error

type_synonym 'a action = "world \<Rightarrow> 'a result \<times> world"

definition seq :: "'a action \<Rightarrow> ('a \<Rightarrow> 'b action) \<Rightarrow> 'b action" where
  "seq f g w = (case f w of (Raises x, w') \<Rightarrow> (Raises x, w') | (Returns a, w') \<Rightarrow> g a w')"

text \<open>A call that changes the parser, and one that only asks it.\<close>

definition on_config :: "(config \<Rightarrow> error + config) \<Rightarrow> unit action" where
  "on_config f w =
     (case f (config w) of Inl x \<Rightarrow> (Raises x, w) | Inr c \<Rightarrow> (Returns (), w\<lparr>config := c\<rparr>))"

definition ask_config :: "(config \<Rightarrow> error + 'a) \<Rightarrow> 'a action" where
  "ask_config f w = (case f (config w) of Inl x \<Rightarrow> (Raises x, w) | Inr a \<Rightarrow> (Returns a, w))"

text \<open>
  \<^verbatim>\<open>__init__\<close> with \<^verbatim>\<open>ensure_params\<close>, given what the two paths hold: a new
  parser, and the credentials file is created empty when it does not exist.
\<close>

definition ensure_params :: "world \<Rightarrow> world" where
  "ensure_params w = (case cred_file w of None \<Rightarrow> w\<lparr>cred_file := Some []\<rparr> | Some text \<Rightarrow> w)"

definition AwsCredentialsManager :: "string option \<Rightarrow> string option \<Rightarrow> world" where
  "AwsCredentialsManager credentials bak =
     ensure_params \<lparr>config = ConfigParser, cred_file = credentials, bak_file = bak,
                    write_fails_at = None\<rparr>"

text \<open>\<^verbatim>\<open>load\<close>: \<^verbatim>\<open>self.config.read(self.path)\<close>, into the parser as it is.\<close>

definition load :: "unit action" where
  "load w =
     (case cp_read (cred_file w) (config w) of
        (c, None) \<Rightarrow> (Returns (), w\<lparr>config := c\<rparr>)
      | (c, Some x) \<Rightarrow> (Raises x, w\<lparr>config := c\<rparr>))"

text \<open>\<^verbatim>\<open>shutil.copy(self.path, self.path.with_suffix(".bak"))\<close>.\<close>

definition copy_to_backup :: "unit action" where
  "copy_to_backup w =
     (case cred_file w of
        None \<Rightarrow> (Raises OSError, w)
      | Some text \<Rightarrow> (Returns (), w\<lparr>bak_file := Some text\<rparr>))"

text \<open>
  \<^verbatim>\<open>with open(self.path, "w") as f: self.config.write(f)\<close>: opening truncates the
  file, the text of the parser follows from its start.
\<close>

definition write_file :: "unit action" where
  "write_file w =
     (let text = cp_write (config w) in
      case write_fails_at w of
        None \<Rightarrow> (Returns (), w\<lparr>cred_file := Some text\<rparr>)
      | Some k \<Rightarrow>
          if k < length text then (Raises OSError, w\<lparr>cred_file := Some (take k text)\<rparr>)
          else (Returns (), w\<lparr>cred_file := Some text\<rparr>))"

text \<open>
  \<^verbatim>\<open>get_profiles\<close> (lines 33 to 36).
\<close>

definition get_profiles :: "(string list) action" where
  "get_profiles =
     seq load (\<lambda>_ w.
       (Returns (filter (\<lambda>sec. sec \<noteq> ''default'') (sections (config w))), w))"

text \<open>
  \<^verbatim>\<open>get_profile_details\<close> (lines 38 to 42). \<^verbatim>\<open>dict(proxy)\<close> lists the keys of
  the proxy and reads each of them.
\<close>

fun proxy_items :: "config \<Rightarrow> string \<Rightarrow> string list \<Rightarrow> error + string dict" where
  "proxy_items c name [] = Inr []"
| "proxy_items c name (k # ks) =
     (case proxy_getitem c name k of
        Inl x \<Rightarrow> Inl x
      | Inr v \<Rightarrow>
          (case proxy_items c name ks of
             Inl x \<Rightarrow> Inl x
           | Inr kvs \<Rightarrow> Inr ((k, v) # kvs)))"

definition proxy_dict :: "config \<Rightarrow> string \<Rightarrow> error + string dict" where
  "proxy_dict c key =
     (case getitem c key of
        Inl x \<Rightarrow> Inl x
      | Inr name \<Rightarrow>
          (case proxy_options c name of
             Inl x \<Rightarrow> Inl x
           | Inr ks \<Rightarrow> proxy_items c name ks))"

definition get_profile_details :: "string \<Rightarrow> (string dict) action" where
  "get_profile_details profile =
     seq load (\<lambda>_ w.
       if contains (config w) profile then ask_config (\<lambda>c. proxy_dict c profile) w
       else (Returns [], w))"

text \<open>
  \<^verbatim>\<open>add_profile\<close> (lines 44 to 59). \<^verbatim>\<open>self.config[name][key] = value\<close> looks the
  proxy up and assigns through it.
\<close>

definition setitem :: "string \<Rightarrow> string \<Rightarrow> string \<Rightarrow> config \<Rightarrow> error + config" where
  "setitem key k v c =
     (case getitem c key of
        Inl x \<Rightarrow> Inl x
      | Inr name \<Rightarrow> proxy_setitem name k v c)"

definition add_profile :: "string \<Rightarrow> string \<Rightarrow> string \<Rightarrow> string \<Rightarrow> unit action" where
  "add_profile name access_key secret_key session_token =
     seq load (\<lambda>_.
     seq copy_to_backup (\<lambda>_.
     seq (on_config (\<lambda>c. if \<not> has_section c name then add_section name c else Inr c)) (\<lambda>_.
     seq (on_config (setitem name ''aws_access_key_id'' access_key)) (\<lambda>_.
     seq (on_config (setitem name ''aws_secret_access_key'' secret_key)) (\<lambda>_.
     seq (on_config (\<lambda>c. if session_token \<noteq> []
                           then setitem name ''aws_session_token'' session_token c else Inr c)) (\<lambda>_.
     write_file))))))"

text \<open>
  \<^verbatim>\<open>set_default\<close> (lines 61 to 81). The loop of lines 77 and 78 takes the keys of the
  source's proxy once, then reads each value from the parser as it is at that turn and
  assigns it in \<^verbatim>\<open>default\<close>.
\<close>

fun copy_keys :: "string \<Rightarrow> string list \<Rightarrow> unit action" where
  "copy_keys name [] = (\<lambda>w. (Returns (), w))"
| "copy_keys name (key # keys) =
     seq (ask_config (\<lambda>c. proxy_getitem c name key)) (\<lambda>v.
     seq (on_config (setitem ''default'' key v)) (\<lambda>_.
     copy_keys name keys))"

definition set_default :: "string \<Rightarrow> unit action" where
  "set_default source_profile =
     seq load (\<lambda>_ w.
       if \<not> contains (config w) source_profile then (Returns (), w)
       else
         (seq copy_to_backup (\<lambda>_.
          seq (on_config (\<lambda>c. if \<not> has_section c ''default''
                                then add_section ''default'' c else Inr c)) (\<lambda>_.
          seq (on_config (\<lambda>c. Inr (remove_section ''default'' c))) (\<lambda>_.
          seq (on_config (add_section ''default'')) (\<lambda>_.
          seq (ask_config (\<lambda>c. getitem c source_profile)) (\<lambda>name.
          seq (ask_config (\<lambda>c. proxy_options c name)) (\<lambda>keys.
          seq (copy_keys name keys) (\<lambda>_.
          write_file)))))))) w)"

subsection \<open>Notions the properties are stated with\<close>

text \<open>
  The store an operation works on: the parser right after the \<^verbatim>\<open>load\<close> that opens
  the operation.
\<close>

definition loaded :: "world \<Rightarrow> config" where
  "loaded w = fst (cp_read (cred_file w) (config w))"

definition load_error :: "world \<Rightarrow> error option" where
  "load_error w = snd (cp_read (cred_file w) (config w))"

text \<open>The entries of a section as stored, and one of them.\<close>

definition entries :: "config \<Rightarrow> string \<Rightarrow> string dict" where
  "entries c section = (case map_of (p_sections c) section of None \<Rightarrow> [] | Some d \<Rightarrow> d)"

definition entry :: "config \<Rightarrow> string \<Rightarrow> string \<Rightarrow> string option" where
  "entry c section k = map_of (entries c section) k"

text \<open>
  What Python's \<^verbatim>\<open>dict\<close> guarantees of the two dictionaries of a parser and what
  the parser guarantees of their keys: names and keys are unique, option keys are stored
  in the form \<^verbatim>\<open>optionxform\<close> gives them, and \<^verbatim>\<open>DEFAULT\<close> is never a key of
  \<^verbatim>\<open>_sections\<close>.
\<close>

definition wf_dict :: "'v dict \<Rightarrow> bool" where
  "wf_dict d = (distinct (map fst d) \<and> (\<forall>k \<in> set (map fst d). optionxform k = k))"

definition wf_sections :: "('v dict) dict \<Rightarrow> bool" where
  "wf_sections xs =
     (distinct (map fst xs) \<and> default_section \<notin> set (map fst xs)
      \<and> (\<forall>d \<in> set (map snd xs). wf_dict d))"

definition wf_config :: "config \<Rightarrow> bool" where
  "wf_config c = (wf_dict (p_defaults c) \<and> wf_sections (p_sections c))"

definition wf_rstate :: "rstate \<Rightarrow> bool" where
  "wf_rstate st = (wf_dict (r_defaults st) \<and> wf_sections (r_sections st))"

text \<open>Lines 69 to 74 leave an empty \<^verbatim>\<open>default\<close> section at the end of the sections.\<close>

definition reset_default :: "config \<Rightarrow> config" where
  "reset_default c =
     c\<lparr>p_sections := AList.delete ''default'' (p_sections c) @ [(''default'', [])]\<rparr>"

text \<open>
  What a section shows (the keys of its proxy, raw values): its own entries, then the
  \<^verbatim>\<open>DEFAULT\<close> options whose keys it does not have itself.
\<close>

definition items :: "config \<Rightarrow> string \<Rightarrow> string dict" where
  "items c section =
     entries c section
     @ filter (\<lambda>kv. fst kv \<notin> set (map fst (entries c section))) (p_defaults c)"

text \<open>
  How an operation started in \<open>w\<close> may leave the credentials file: untouched, written
  whole from the parser, or cut short by a write that failed after \<open>k\<close> characters.
\<close>

definition file_outcome :: "world \<Rightarrow> 'a result \<times> world \<Rightarrow> bool" where
  "file_outcome w rw =
     (cred_file (snd rw) = cred_file w
      \<or> ((\<exists>a. fst rw = Returns a) \<and> cred_file (snd rw) = Some (cp_write (config (snd rw))))
      \<or> (fst rw = Raises OSError
          \<and> (\<exists>k. write_fails_at w = Some k \<and> k < length (cp_write (config (snd rw)))
                \<and> cred_file (snd rw) = Some (take k (cp_write (config (snd rw)))))))"

text \<open>
  The backup after an operation: whenever the credentials file is not what it was, the
  backup file holds what it was.
\<close>

definition backed_up :: "world \<Rightarrow> 'a result \<times> world \<Rightarrow> bool" where
  "backed_up w rw = (cred_file (snd rw) \<noteq> cred_file w \<longrightarrow> bak_file (snd rw) = cred_file w)"

definition keeps_files :: "'a action \<Rightarrow> bool" where
  "keeps_files f =
     (\<forall>w. cred_file (snd (f w)) = cred_file w \<and> bak_file (snd (f w)) = bak_file w
          \<and> write_fails_at (snd (f w)) = write_fails_at w)"

definition guarded :: "'a action \<Rightarrow> bool" where
  "guarded f =
     (\<forall>w. bak_file (snd (f w)) = bak_file w \<and> write_fails_at (snd (f w)) = write_fails_at w
          \<and> file_outcome w (f w))"

section \<open>Properties\<close>

subsection \<open>Reading keeps the parser well-formed\<close>

lemma lower_char_idem: "lower_char (lower_char c) = lower_char c"
  by (auto simp: lower_char_def Let_def)

lemma optionxform_idem: "optionxform (optionxform k) = optionxform k"
  by (simp add: optionxform_def lower_def lower_char_idem)

lemma map_fst_map_entry: "map fst (AList.map_entry k f xs) = map fst xs"
  by (induction xs) auto

lemma map_fst_map_values: "map fst (map (\<lambda>(k, v). (k, f v)) d) = map fst d"
  by (induction d) auto

lemma wf_dict_Nil: "wf_dict []"
  by (simp add: wf_dict_def)

lemma wf_dict_update: "wf_dict d \<Longrightarrow> optionxform k = k \<Longrightarrow> wf_dict (AList.update k v d)"
  by (auto simp: wf_dict_def AList.distinct_update AList.update_keys)

lemma wf_dict_map_entry: "wf_dict d \<Longrightarrow> wf_dict (AList.map_entry k f d)"
  by (simp add: wf_dict_def map_fst_map_entry)

lemma wf_dict_map_values: "wf_dict (map (\<lambda>(k, v). (k, f v)) d) = wf_dict d"
  by (simp only: wf_dict_def map_fst_map_values)

lemma all_snd_map_entry:
  "\<forall>d \<in> set (map snd xs). P d \<Longrightarrow> (\<And>d. P d \<Longrightarrow> P (f d))
    \<Longrightarrow> \<forall>d \<in> set (map snd (AList.map_entry n f xs)). P d"
  by (induction xs) auto

lemma all_snd_update:
  "\<forall>d \<in> set (map snd xs). P d \<Longrightarrow> P v \<Longrightarrow> \<forall>d \<in> set (map snd (AList.update k v xs)). P d"
  by (induction xs) auto

lemma all_snd_map_values:
  "\<forall>d \<in> set (map snd xs). P d \<Longrightarrow> (\<And>d. P d \<Longrightarrow> Q (g d))
    \<Longrightarrow> \<forall>d \<in> set (map snd (map (\<lambda>(n, d). (n, g d)) xs)). Q d"
  by (induction xs) auto

lemma wf_sections_map_entry:
  assumes "wf_sections xs" and "\<And>d. wf_dict d \<Longrightarrow> wf_dict (f d)"
  shows "wf_sections (AList.map_entry n f xs)"
proof -
  have "\<forall>d \<in> set (map snd (AList.map_entry n f xs)). wf_dict d"
    using assms by (intro all_snd_map_entry) (simp_all add: wf_sections_def)
  with assms(1) show ?thesis
    by (simp add: wf_sections_def map_fst_map_entry)
qed

lemma wf_sections_update:
  assumes "wf_sections xs" and "n \<noteq> default_section" and "wf_dict d"
  shows "wf_sections (AList.update n d xs)"
proof -
  have "\<forall>d \<in> set (map snd (AList.update n d xs)). wf_dict d"
    using assms by (intro all_snd_update) (simp_all add: wf_sections_def)
  with assms show ?thesis
    by (auto simp: wf_sections_def AList.distinct_update AList.update_keys)
qed

lemma wf_sections_map_values:
  assumes "wf_sections xs"
  shows "wf_sections (map (\<lambda>(n, d). (n, map (\<lambda>(k, v). (k, f v)) d)) xs)"
proof -
  have "\<forall>d \<in> set (map snd (map (\<lambda>(n, d). (n, map (\<lambda>(k, v). (k, f v)) d)) xs)). wf_dict d"
    using assms by (intro all_snd_map_values [where P = wf_dict])
      (simp_all add: wf_sections_def wf_dict_map_values)
  with assms show ?thesis
    by (simp only: wf_sections_def map_fst_map_values) simp
qed

lemma wf_rstate_read_line:
  assumes "wf_rstate st" and "read_line line st = Inr st'"
  shows "wf_rstate st'"
  using assms
  by (auto simp: read_line_def Let_def wf_rstate_def cursect_set_def cursect_append_def
      wf_dict_update wf_dict_map_entry wf_sections_map_entry wf_sections_update wf_dict_Nil
      optionxform_idem
      split: if_splits option.splits prod.splits cursect.splits)

lemma wf_rstate_read_lines:
  "wf_rstate st \<Longrightarrow> wf_rstate (snd (read_lines ls st))"
proof (induction ls arbitrary: st)
  case Nil
  then show ?case by simp
next
  case (Cons l ls)
  show ?case
  proof (cases "read_line l st")
    case (Inl x)
    with Cons.prems show ?thesis by simp
  next
    case (Inr st')
    with Cons.prems have "wf_rstate st'" by (blast intro: wf_rstate_read_line)
    with Inr Cons.IH show ?thesis by simp
  qed
qed

lemma wf_init_rstate: "wf_config c \<Longrightarrow> wf_rstate (init_rstate c)"
  by (simp add: wf_config_def wf_rstate_def init_rstate_def wf_dict_map_values
      wf_sections_map_values)

lemma wf_join_multiline_values: "wf_rstate st \<Longrightarrow> wf_config (join_multiline_values st)"
  by (simp add: wf_config_def wf_rstate_def join_multiline_values_def wf_dict_map_values
      wf_sections_map_values)

lemma wf_read_text: "wf_config c \<Longrightarrow> wf_config (fst (read_text text c))"
proof -
  assume "wf_config c"
  then have "wf_rstate (snd (read_lines (lines_of (universal_newlines text)) (init_rstate c)))"
    by (intro wf_rstate_read_lines wf_init_rstate)
  then show ?thesis
    by (simp add: read_text_def split: prod.splits) (metis snd_conv wf_join_multiline_values)
qed

lemma wf_loaded: "wf_config (config w) \<Longrightarrow> wf_config (loaded w)"
  by (simp add: loaded_def cp_read_def wf_read_text split: option.splits)

lemma wf_ConfigParser: "wf_config ConfigParser"
  by (simp add: wf_config_def ConfigParser_def wf_dict_def wf_sections_def)

subsection \<open>The steps of an operation\<close>

lemma load_eq:
  "load w = ((case load_error w of None \<Rightarrow> Returns () | Some x \<Rightarrow> Raises x), w\<lparr>config := loaded w\<rparr>)"
  by (simp add: load_def loaded_def load_error_def split: prod.splits option.splits)

lemma seq_load_Returns:
  "(seq load k w = (Returns a, w')) =
   (load_error w = None \<and> k () (w\<lparr>config := loaded w\<rparr>) = (Returns a, w'))"
  by (cases "load_error w") (simp_all add: seq_def load_eq)

lemma seq_copy_Returns:
  "(seq copy_to_backup k w = (Returns a, w')) =
   (\<exists>t. cred_file w = Some t \<and> k () (w\<lparr>bak_file := Some t\<rparr>) = (Returns a, w'))"
  by (cases "cred_file w") (simp_all add: seq_def copy_to_backup_def)

lemma seq_on_config_Returns:
  "(seq (on_config f) k w = (Returns a, w')) =
   (\<exists>c. f (config w) = Inr c \<and> k () (w\<lparr>config := c\<rparr>) = (Returns a, w'))"
  by (cases "f (config w)") (simp_all add: seq_def on_config_def)

lemma seq_ask_config_Returns:
  "(seq (ask_config f) k w = (Returns a, w')) =
   (\<exists>x. f (config w) = Inr x \<and> k x w = (Returns a, w'))"
  by (cases "f (config w)") (simp_all add: seq_def ask_config_def)

lemma write_file_Returns:
  "(write_file w = (Returns u, w')) =
   ((\<forall>k. write_fails_at w = Some k \<longrightarrow> length (cp_write (config w)) \<le> k)
    \<and> w' = w\<lparr>cred_file := Some (cp_write (config w))\<rparr>)"
  by (cases "write_fails_at w") (auto simp: write_file_def Let_def)

lemmas step_Returns =
  seq_load_Returns seq_copy_Returns seq_on_config_Returns seq_ask_config_Returns write_file_Returns

subsection \<open>Sections and options\<close>

lemma update_new: "k \<notin> set (map fst xs) \<Longrightarrow> AList.update k v xs = xs @ [(k, v)]"
  by (induction xs) auto

lemma entries_update: "entries (c\<lparr>p_sections := AList.update n d (p_sections c)\<rparr>) m =
   (if m = n then d else entries c m)"
  by (simp add: entries_def AList.update_conv')

lemma before_set_Inr: "before_set v = Inr v' \<Longrightarrow> v' = v"
  by (simp add: before_set_def split: if_splits)

lemma ensure_section:
  assumes "(if \<not> has_section c name then add_section name c else Inr c) = Inr c'"
  shows "p_defaults c' = p_defaults c"
    and "has_section c' name"
    and "sections c' = (if has_section c name then sections c else sections c @ [name])"
    and "entries c' n = entries c n"
proof -
  have "entries (c\<lparr>p_sections := AList.update name [] (p_sections c)\<rparr>) n = entries c n"
    if "name \<notin> fst ` set (p_sections c)"
    using that by (auto simp: entries_def AList.update_conv' map_of_eq_None_iff [symmetric])
  with assms show "entries c' n = entries c n"
    by (auto simp: has_section_def add_section_def split: if_splits)
  from assms show "p_defaults c' = p_defaults c" "has_section c' name"
    "sections c' = (if has_section c name then sections c else sections c @ [name])"
    by (auto simp: has_section_def add_section_def sections_def update_new split: if_splits)
qed

lemma setitem_Inr:
  assumes "setitem name k v c = Inr c'" and "name \<noteq> []" and "name \<noteq> default_section"
  shows "has_section c name"
    and "c' = c\<lparr>p_sections :=
           AList.update name (AList.update (optionxform k) v (entries c name)) (p_sections c)\<rparr>"
  using assms
  by (auto simp: setitem_def getitem_def proxy_setitem_def cp_set_def entries_def
      dest: before_set_Inr split: if_splits sum.splits option.splits)

lemma lower_keys:
  "optionxform ''aws_access_key_id'' = ''aws_access_key_id''"
  "optionxform ''aws_secret_access_key'' = ''aws_secret_access_key''"
  "optionxform ''aws_session_token'' = ''aws_session_token''"
  by (simp_all add: optionxform_def lower_def lower_char_def)

lemma has_section_update: "has_section (c\<lparr>p_sections := AList.update n d (p_sections c)\<rparr>) n"
  by (simp add: has_section_def AList.update_keys)

lemma sections_update:
  "has_section c n \<Longrightarrow> sections (c\<lparr>p_sections := AList.update n d (p_sections c)\<rparr>) = sections c"
  by (simp add: has_section_def sections_def AList.update_keys)

lemma add_profile_effect:
  assumes ret: "add_profile name access_key secret_key session_token w = (Returns (), w')"
    and name: "name \<noteq> []" "name \<noteq> default_section"
  shows "cred_file w' = Some (cp_write (config w'))"
    and "bak_file w' = cred_file w"
    and "sections (config w') =
          (if has_section (loaded w) name then sections (loaded w) else sections (loaded w) @ [name])"
    and "p_defaults (config w') = p_defaults (loaded w)"
    and "n \<noteq> name \<Longrightarrow> entries (config w') n = entries (loaded w) n"
    and "entries (config w') name =
          (if session_token \<noteq> [] then AList.update ''aws_session_token'' session_token else id)
            (AList.update ''aws_secret_access_key'' secret_key
              (AList.update ''aws_access_key_id'' access_key (entries (loaded w) name)))"
proof -
  from ret obtain t c2 c3 c4 c5 where
    t: "cred_file w = Some t"
    and c2: "(if \<not> has_section (loaded w) name then add_section name (loaded w) else Inr (loaded w)) = Inr c2"
    and c3: "setitem name ''aws_access_key_id'' access_key c2 = Inr c3"
    and c4: "setitem name ''aws_secret_access_key'' secret_key c3 = Inr c4"
    and c5: "(if session_token \<noteq> [] then setitem name ''aws_session_token'' session_token c4 else Inr c4) = Inr c5"
    and w': "config w' = c5" "bak_file w' = Some t" "cred_file w' = Some (cp_write c5)"
    by (auto simp: add_profile_def step_Returns cong: if_cong)
  note e2 = ensure_section [OF c2]
  note s3 = setitem_Inr [OF c3 name]
  note s4 = setitem_Inr [OF c4 name]
  have c5': "c5 = (if session_token \<noteq> [] then c4\<lparr>p_sections :=
           AList.update name (AList.update ''aws_session_token'' session_token (entries c4 name)) (p_sections c4)\<rparr> else c4)"
    using c5 setitem_Inr(2) [OF _ name, of "''aws_session_token''" session_token c4 c5]
    by (auto simp: lower_keys split: if_splits)
  show "cred_file w' = Some (cp_write (config w'))" by (simp add: w')
  show "bak_file w' = cred_file w" by (simp add: w' t)
  show "p_defaults (config w') = p_defaults (loaded w)"
    by (simp add: w' c5' s4(2) s3(2) e2(1))
  show "sections (config w') =
          (if has_section (loaded w) name then sections (loaded w) else sections (loaded w) @ [name])"
  proof -
    have "sections c3 = sections c2" by (subst s3(2)) (rule sections_update [OF s3(1)])
    moreover have "sections c4 = sections c3" by (subst s4(2)) (rule sections_update [OF s4(1)])
    moreover have "has_section c4 name" by (subst s4(2)) (rule has_section_update)
    then have "sections c5 = sections c4"
      by (auto simp: c5' sections_update)
    ultimately show ?thesis by (simp add: w' e2(3))
  qed
  show "entries (config w') n = entries (loaded w) n" if "n \<noteq> name"
  proof -
    have "entries c3 n = entries c2 n" by (subst s3(2)) (simp add: entries_update that)
    moreover have "entries c4 n = entries c3 n" by (subst s4(2)) (simp add: entries_update that)
    moreover have "entries c5 n = entries c4 n" by (simp add: c5' entries_update that)
    ultimately show ?thesis by (simp add: w' e2(4))
  qed
  show "entries (config w') name =
          (if session_token \<noteq> [] then AList.update ''aws_session_token'' session_token else id)
            (AList.update ''aws_secret_access_key'' secret_key
              (AList.update ''aws_access_key_id'' access_key (entries (loaded w) name)))"
  proof -
    have "entries c3 name = AList.update ''aws_access_key_id'' access_key (entries c2 name)"
      by (subst s3(2)) (simp add: entries_update lower_keys)
    moreover have "entries c4 name = AList.update ''aws_secret_access_key'' secret_key (entries c3 name)"
      by (subst s4(2)) (simp add: entries_update lower_keys)
    moreover have "entries c5 name =
      (if session_token \<noteq> [] then AList.update ''aws_session_token'' session_token else id) (entries c4 name)"
      by (simp add: c5' entries_update)
    ultimately show ?thesis by (simp add: w' e2(4))
  qed
qed


lemma set_remove_escaped: "set (remove_escaped s) \<subseteq> set s"
  by (induction s rule: remove_escaped.induct) auto

lemma keycre_match_subset:
  assumes "keycre_match s = Some (name, rest)"
  shows "set rest \<subseteq> set s"
proof -
  from assms obtain a b r p q where s: "s = a # b # r"
    and dw: "dropWhile (\<lambda>c. c \<noteq> CHR '')'') r = p # q # rest"
    by (auto simp: keycre_match_def split: list.splits if_splits)
  have "set (dropWhile (\<lambda>c. c \<noteq> CHR '')'') r) \<subseteq> set r"
    by (rule set_dropWhileD [THEN subsetI])
  with dw s show ?thesis by auto
qed

lemma set_keycre_sub: "set (keycre_sub s) \<subseteq> set s"
proof (induction s rule: keycre_sub.induct)
  case 1
  then show ?case by simp
next
  case (2 c cs)
  show ?case
  proof (cases "keycre_match (c # cs)")
    case None
    from 2(1) [OF None] have "set (keycre_sub cs) \<subseteq> set cs" .
    with None show ?thesis by auto
  next
    case (Some p)
    obtain name rest where p: "p = (name, rest)" by (cases p)
    from 2(2) [OF Some p [symmetric]] have "set (keycre_sub rest) \<subseteq> set rest" .
    moreover from Some p have "set rest \<subseteq> set (c # cs)"
      using keycre_match_subset [of "c # cs" name rest] by simp
    ultimately show ?thesis using Some p by auto
  qed
qed

lemma before_set_plain: "CHR ''%'' \<notin> set v \<Longrightarrow> before_set v = Inr v"
  using set_keycre_sub [of "remove_escaped v"] set_remove_escaped [of v]
  by (auto simp: before_set_def)

lemma setitem_ok:
  assumes "has_section c name" and "name \<noteq> []" and "name \<noteq> default_section"
    and "before_set v = Inr v"
  shows "setitem name k v c = Inr (c\<lparr>p_sections :=
           AList.update name (AList.update (optionxform k) v (entries c name)) (p_sections c)\<rparr>)"
proof -
  from assms(1) obtain d where "map_of (p_sections c) name = Some d"
    by (cases "map_of (p_sections c) name") (auto simp: has_section_def map_of_eq_None_iff)
  with assms show ?thesis
    by (simp add: setitem_def getitem_def proxy_setitem_def cp_set_def entries_def)
qed

lemma add_profile_Returns:
  assumes "load_error w = None" and "cred_file w = Some t" and "write_fails_at w = None"
    and name: "name \<noteq> []" "name \<noteq> default_section"
    and vals: "before_set access_key = Inr access_key" "before_set secret_key = Inr secret_key"
      "before_set session_token = Inr session_token"
  shows "\<exists>w'. add_profile name access_key secret_key session_token w = (Returns (), w')"
proof -
  obtain c2 where c2: "(if \<not> has_section (loaded w) name then add_section name (loaded w)
      else Inr (loaded w)) = Inr c2"
    using name by (cases "has_section (loaded w) name") (auto simp: add_section_def has_section_def)
  note h2 = ensure_section(2) [OF c2]
  note s3 = setitem_ok [OF h2 name vals(1), of "''aws_access_key_id''"]
  have h3: "has_section (c2\<lparr>p_sections := AList.update name
      (AList.update (optionxform ''aws_access_key_id'') access_key (entries c2 name)) (p_sections c2)\<rparr>) name"
    by (rule has_section_update)
  note s4 = setitem_ok [OF h3 name vals(2), of "''aws_secret_access_key''"]
  let ?c4 = "c2\<lparr>p_sections := AList.update name
      (AList.update (optionxform ''aws_access_key_id'') access_key (entries c2 name)) (p_sections c2)\<rparr>
      \<lparr>p_sections := AList.update name
      (AList.update (optionxform ''aws_secret_access_key'') secret_key
        (entries (c2\<lparr>p_sections := AList.update name
      (AList.update (optionxform ''aws_access_key_id'') access_key (entries c2 name)) (p_sections c2)\<rparr>) name))
      (p_sections (c2\<lparr>p_sections := AList.update name
      (AList.update (optionxform ''aws_access_key_id'') access_key (entries c2 name)) (p_sections c2)\<rparr>))\<rparr>"
  have h4: "has_section ?c4 name" by (rule has_section_update)
  note s5 = setitem_ok [OF h4 name vals(3), of "''aws_session_token''"]
  from assms(1-3) c2 s3 s4 s5 show ?thesis
    by (simp add: add_profile_def step_Returns cong: if_cong)
qed

subsection \<open>C8: what \<^verbatim>\<open>add_profile\<close> changes and what it leaves alone\<close>

text \<open>
  Claim C8, as amended. For every state of the manager and of its files and every call
  \<^verbatim>\<open>add_profile(name, access_key, secret_key, session_token)\<close> with a non-empty
  \<open>name\<close> other than the parser's reserved \<^verbatim>\<open>DEFAULT\<close> that returns: the
  file holds the text of the parser; the section \<open>name\<close> is appended to the sections
  of the loaded store when it was absent, and the list of sections is otherwise the same;
  the defaults are the same; every other section has the entries it had; in \<open>name\<close>
  the access key and the secret key are set, the session token is set when it is not
  empty and keeps its old entry otherwise, and every other key has the entry it had.
\<close>

theorem add_profile_frame:
  assumes "add_profile name access_key secret_key session_token w = (Returns (), w')"
    and "name \<noteq> []" and "name \<noteq> ''DEFAULT''"
  shows "cred_file w' = Some (cp_write (config w'))
    \<and> sections (config w') =
        (if has_section (loaded w) name then sections (loaded w) else sections (loaded w) @ [name])
    \<and> p_defaults (config w') = p_defaults (loaded w)
    \<and> (\<forall>n. n \<noteq> name \<longrightarrow> entries (config w') n = entries (loaded w) n)
    \<and> entry (config w') name ''aws_access_key_id'' = Some access_key
    \<and> entry (config w') name ''aws_secret_access_key'' = Some secret_key
    \<and> entry (config w') name ''aws_session_token'' =
        (if session_token \<noteq> [] then Some session_token
         else entry (loaded w) name ''aws_session_token'')
    \<and> (\<forall>k. k \<notin> {''aws_access_key_id'', ''aws_secret_access_key'', ''aws_session_token''}
          \<longrightarrow> entry (config w') name k = entry (loaded w) name k)"
proof -
  have name: "name \<noteq> []" "name \<noteq> default_section"
    using assms by (simp_all add: default_section_def)
  note eff = add_profile_effect [OF assms(1) name]
  show ?thesis
    by (simp add: eff entry_def AList.update_conv')
qed

text \<open>The theorem at a file with two sections, one of them the profile that is updated.\<close>

theorem add_profile_frame_witness:
  "add_profile ''work'' ''AK'' ''SK'' []
     (AwsCredentialsManager (Some ''[work]\<newline>region = eu\<newline>aws_access_key_id = OLD\<newline>[home]\<newline>k = v\<newline>'') None)
   = (Returns (),
      \<lparr>config = \<lparr>p_defaults = [],
          p_sections = [(''work'', [(''region'', ''eu''), (''aws_access_key_id'', ''AK''),
                                    (''aws_secret_access_key'', ''SK'')]),
                        (''home'', [(''k'', ''v'')])]\<rparr>,
       cred_file = Some ''[work]\<newline>region = eu\<newline>aws_access_key_id = AK\<newline>aws_secret_access_key = SK\<newline>\<newline>[home]\<newline>k = v\<newline>\<newline>'',
       bak_file = Some ''[work]\<newline>region = eu\<newline>aws_access_key_id = OLD\<newline>[home]\<newline>k = v\<newline>'',
       write_fails_at = None\<rparr>)
   \<and> entry \<lparr>p_defaults = [],
          p_sections = [(''work'', [(''region'', ''eu''), (''aws_access_key_id'', ''AK''),
                                    (''aws_secret_access_key'', ''SK'')]),
                        (''home'', [(''k'', ''v'')])]\<rparr> ''work'' ''region'' = Some ''eu''"
proof -
  let ?w = "AwsCredentialsManager (Some ''[work]\<newline>region = eu\<newline>aws_access_key_id = OLD\<newline>[home]\<newline>k = v\<newline>'') None"
  let ?w' = "\<lparr>config = \<lparr>p_defaults = [],
          p_sections = [(''work'', [(''region'', ''eu''), (''aws_access_key_id'', ''AK''),
                                    (''aws_secret_access_key'', ''SK'')]),
                        (''home'', [(''k'', ''v'')])]\<rparr>,
       cred_file = Some ''[work]\<newline>region = eu\<newline>aws_access_key_id = AK\<newline>aws_secret_access_key = SK\<newline>\<newline>[home]\<newline>k = v\<newline>\<newline>'',
       bak_file = Some ''[work]\<newline>region = eu\<newline>aws_access_key_id = OLD\<newline>[home]\<newline>k = v\<newline>'',
       write_fails_at = None\<rparr>"
  have r: "add_profile ''work'' ''AK'' ''SK'' [] ?w = (Returns (), ?w')"
    by code_simp
  have l: "entry (loaded ?w) ''work'' ''region'' = Some ''eu''"
    by code_simp
  from add_profile_frame [OF r] l show ?thesis
    using r by simp
qed

text \<open>
  The claim as it was stated fails at the name \<^verbatim>\<open>DEFAULT\<close>: the section is absent,
  \<^verbatim>\<open>add_section\<close> raises \<^verbatim>\<open>ValueError\<close> after the backup is made, and no
  section is created and no field set.
\<close>

theorem add_profile_frame_counterexample:
  "add_profile ''DEFAULT'' ''AK'' ''SK'' [] (AwsCredentialsManager (Some ''[work]\<newline>k = v\<newline>'') None)
   = (Raises ValueError,
      \<lparr>config = \<lparr>p_defaults = [], p_sections = [(''work'', [(''k'', ''v'')])]\<rparr>,
       cred_file = Some ''[work]\<newline>k = v\<newline>'',
       bak_file = Some ''[work]\<newline>k = v\<newline>'',
       write_fails_at = None\<rparr>)"
  by code_simp

subsection \<open>C3: \<^verbatim>\<open>set_default\<close> on a name that is not there\<close>

text \<open>
  Claim C3, as amended. For every state of the manager and of its files and every
  \<open>source_profile\<close> other than the parser's reserved \<^verbatim>\<open>DEFAULT\<close> that is not a
  section of the loaded store, \<^verbatim>\<open>set_default(source_profile)\<close> does what
  \<^verbatim>\<open>load\<close> alone does: the credentials file and the backup file are what they were (a
  missing backup stays missing), and the call returns when the file can be parsed.
\<close>

theorem set_default_absent_noop:
  assumes "\<not> has_section (loaded w) source_profile" and "source_profile \<noteq> ''DEFAULT''"
  shows "set_default source_profile w = load w
    \<and> cred_file (snd (set_default source_profile w)) = cred_file w
    \<and> bak_file (snd (set_default source_profile w)) = bak_file w
    \<and> (load_error w = None \<longrightarrow> fst (set_default source_profile w) = Returns ())"
proof -
  have nc: "\<not> contains (loaded w) source_profile"
    using assms by (simp add: contains_def default_section_def)
  have "set_default source_profile w = load w"
    using nc by (cases "load_error w") (simp_all add: set_default_def seq_def load_eq)
  then show ?thesis by (simp add: load_eq)
qed

text \<open>The theorem at a file that has one section, which is not the one asked for.\<close>

theorem set_default_absent_noop_witness:
  "\<not> has_section (loaded (AwsCredentialsManager (Some ''[work]\<newline>k = v\<newline>'') None)) ''ghost''
   \<and> set_default ''ghost'' (AwsCredentialsManager (Some ''[work]\<newline>k = v\<newline>'') None)
     = (Returns (),
        \<lparr>config = \<lparr>p_defaults = [], p_sections = [(''work'', [(''k'', ''v'')])]\<rparr>,
         cred_file = Some ''[work]\<newline>k = v\<newline>'', bak_file = None, write_fails_at = None\<rparr>)"
proof -
  let ?w = "AwsCredentialsManager (Some ''[work]\<newline>k = v\<newline>'') None"
  have h: "\<not> has_section (loaded ?w) ''ghost''" by code_simp
  have l: "load ?w = (Returns (),
        \<lparr>config = \<lparr>p_defaults = [], p_sections = [(''work'', [(''k'', ''v'')])]\<rparr>,
         cred_file = Some ''[work]\<newline>k = v\<newline>'', bak_file = None, write_fails_at = None\<rparr>)"
    by code_simp
  from set_default_absent_noop [OF h] l h show ?thesis by simp
qed

text \<open>
  The claim as it was stated fails at \<^verbatim>\<open>DEFAULT\<close>: the file has no section of that
  name, yet \<^verbatim>\<open>"DEFAULT" in self.config\<close> holds, so the backup is written and the file
  is rewritten with an empty \<^verbatim>\<open>default\<close> section.
\<close>

theorem set_default_absent_noop_counterexample:
  "\<not> has_section (loaded (AwsCredentialsManager (Some ''[work]\<newline>k = v\<newline>'') None)) ''DEFAULT''
   \<and> set_default ''DEFAULT'' (AwsCredentialsManager (Some ''[work]\<newline>k = v\<newline>'') None)
     = (Returns (),
        \<lparr>config = \<lparr>p_defaults = [], p_sections = [(''work'', [(''k'', ''v'')]), (''default'', [])]\<rparr>,
         cred_file = Some ''[work]\<newline>k = v\<newline>\<newline>[default]\<newline>\<newline>'',
         bak_file = Some ''[work]\<newline>k = v\<newline>'', write_fails_at = None\<rparr>)"
  by code_simp

subsection \<open>C2: \<^verbatim>\<open>add_profile\<close> with the name \<^verbatim>\<open>default\<close>\<close>

text \<open>
  Claim C2, as amended. \<^verbatim>\<open>add_profile\<close> has no check of the name: for every state
  in which the file exists and can be parsed and the write succeeds, and for all values
  without a percent sign, \<^verbatim>\<open>add_profile("default", ...)\<close> returns, leaves the old
  file content in the backup, and writes a parser in which the section
  \<^verbatim>\<open>default\<close> holds the given access key and secret key (and the session token
  when it is not empty).
\<close>

theorem add_profile_default_accepted:
  assumes "load_error w = None" and "cred_file w = Some t" and "write_fails_at w = None"
    and "CHR ''%'' \<notin> set access_key" and "CHR ''%'' \<notin> set secret_key"
    and "CHR ''%'' \<notin> set session_token"
  shows "\<exists>w'. add_profile ''default'' access_key secret_key session_token w = (Returns (), w')
    \<and> bak_file w' = Some t
    \<and> cred_file w' = Some (cp_write (config w'))
    \<and> has_section (config w') ''default''
    \<and> entry (config w') ''default'' ''aws_access_key_id'' = Some access_key
    \<and> entry (config w') ''default'' ''aws_secret_access_key'' = Some secret_key
    \<and> (session_token \<noteq> [] \<longrightarrow>
          entry (config w') ''default'' ''aws_session_token'' = Some session_token)"
proof -
  have name: "''default'' \<noteq> []" "''default'' \<noteq> default_section"
    by (simp_all add: default_section_def)
  from add_profile_Returns [OF assms(1-3) name before_set_plain before_set_plain before_set_plain,
      OF assms(4-6)]
  obtain w' where r: "add_profile ''default'' access_key secret_key session_token w = (Returns (), w')"
    by blast
  note eff = add_profile_effect [OF r name]
  have "has_section (config w') ''default''"
    using eff(3) by (auto simp: has_section_def sections_def split: if_splits)
  with r show ?thesis
    by (simp add: eff assms(2) entry_def AList.update_conv')
qed

text \<open>The theorem at a file whose \<^verbatim>\<open>default\<close> section is the copy of a profile.\<close>

theorem add_profile_default_accepted_witness:
  "load_error (AwsCredentialsManager (Some ''[default]\<newline>aws_access_key_id = OLD\<newline>'') None) = None
   \<and> (\<exists>w'. add_profile ''default'' ''AK'' ''SK'' []
             (AwsCredentialsManager (Some ''[default]\<newline>aws_access_key_id = OLD\<newline>'') None)
           = (Returns (), w')
        \<and> bak_file w' = Some ''[default]\<newline>aws_access_key_id = OLD\<newline>''
        \<and> entry (config w') ''default'' ''aws_access_key_id'' = Some ''AK'')"
proof -
  let ?w = "AwsCredentialsManager (Some ''[default]\<newline>aws_access_key_id = OLD\<newline>'') None"
  have h: "load_error ?w = None" "cred_file ?w = Some ''[default]\<newline>aws_access_key_id = OLD\<newline>''"
    "write_fails_at ?w = None" "CHR ''%'' \<notin> set ''AK''" "CHR ''%'' \<notin> set ''SK''"
    "CHR ''%'' \<notin> set []"
    by code_simp+
  from add_profile_default_accepted [OF h] h(1) show ?thesis by blast
qed

text \<open>
  The claim as it was stated fails on every such call: nothing is rejected, and the
  file is rewritten with the new key in \<^verbatim>\<open>default\<close>.
\<close>

theorem add_profile_default_accepted_counterexample:
  "add_profile ''default'' ''AK'' ''SK'' []
     (AwsCredentialsManager (Some ''[default]\<newline>aws_access_key_id = OLD\<newline>'') None)
   = (Returns (),
      \<lparr>config = \<lparr>p_defaults = [],
          p_sections = [(''default'', [(''aws_access_key_id'', ''AK''),
                                       (''aws_secret_access_key'', ''SK'')])]\<rparr>,
       cred_file = Some ''[default]\<newline>aws_access_key_id = AK\<newline>aws_secret_access_key = SK\<newline>\<newline>'',
       bak_file = Some ''[default]\<newline>aws_access_key_id = OLD\<newline>'',
       write_fails_at = None\<rparr>)"
  by code_simp

subsection \<open>The steps of \<^verbatim>\<open>set_default\<close>\<close>

lemma reset_default_steps:
  "seq (on_config (\<lambda>c. if \<not> has_section c ''default'' then add_section ''default'' c else Inr c)) (\<lambda>_.
   seq (on_config (\<lambda>c. Inr (remove_section ''default'' c))) (\<lambda>_.
   seq (on_config (add_section ''default'')) k)) w
   = k () (w\<lparr>config := reset_default (config w)\<rparr>)"
proof -
  have a: "add_section ''default'' (remove_section ''default'' c) = Inr (reset_default c)" for c
    using AList.delete_notin_dom [of "''default''" "p_sections c"]
    by (simp add: add_section_def remove_section_def default_section_def update_new
        reset_default_def)
  have b: "reset_default (c\<lparr>p_sections := AList.update ''default'' [] (p_sections c)\<rparr>)
      = reset_default c" for c
    by (simp add: reset_default_def AList.delete_update_same)
  show ?thesis
  proof (cases "has_section (config w) ''default''")
    case True
    then show ?thesis
      by (simp add: seq_def on_config_def a)
  next
    case False
    then have "add_section ''default'' (config w)
        = Inr (config w\<lparr>p_sections := AList.update ''default'' [] (p_sections (config w))\<rparr>)"
      by (simp add: add_section_def default_section_def has_section_def)
    with False show ?thesis
      by (simp add: seq_def on_config_def a b)
  qed
qed

lemma entries_reset_default:
  "entries (reset_default c) n = (if n = ''default'' then [] else entries c n)"
proof -
  have "map_of (AList.delete ''default'' xs @ [(''default'', v)]) ''default'' = Some v"
    for xs :: "(string dict) dict" and v
    by (simp add: map_add_def AList.delete_conv' split: option.splits)
  moreover have "n \<noteq> ''default'' \<Longrightarrow>
    map_of (AList.delete ''default'' xs @ [(''default'', v)]) n = map_of xs n"
    for xs :: "(string dict) dict" and v
    by (auto simp: map_add_def AList.delete_conv' split: option.splits)
  ultimately show ?thesis
    by (simp add: entries_def reset_default_def)
qed

lemma has_section_reset_default:
  "has_section (reset_default c) n = (n = ''default'' \<or> has_section c n)"
  by (auto simp: has_section_def reset_default_def AList.delete_keys)

lemma map_of_reset_default:
  "has_section c n \<or> n = ''default'' \<Longrightarrow>
   map_of (p_sections (reset_default c)) n = Some (entries (reset_default c) n)"
proof -
  assume "has_section c n \<or> n = ''default''"
  then have "has_section (reset_default c) n" by (auto simp: has_section_reset_default)
  then show ?thesis
    by (cases "map_of (p_sections (reset_default c)) n")
      (auto simp: has_section_def entries_def map_of_eq_None_iff)
qed

lemma set_default_eq:
  assumes "load_error w = None" and "contains (loaded w) source_profile"
    and "cred_file w = Some t"
  shows "set_default source_profile w =
     seq (ask_config (\<lambda>c. getitem c source_profile)) (\<lambda>name.
     seq (ask_config (\<lambda>c. proxy_options c name)) (\<lambda>keys.
     seq (copy_keys name keys) (\<lambda>_. write_file)))
       (w\<lparr>bak_file := Some t, config := reset_default (loaded w)\<rparr>)"
  using assms
  by (simp add: set_default_def seq_def [of load] load_eq seq_def [of copy_to_backup]
      copy_to_backup_def reset_default_steps)

subsection \<open>C10: \<^verbatim>\<open>set_default\<close> on the alias itself\<close>

text \<open>
  Claim C10, as amended. For every state in which the file exists and can be parsed, the
  write succeeds, the loaded store has a section \<^verbatim>\<open>default\<close> and the parser has no
  \<^verbatim>\<open>DEFAULT\<close> options: \<^verbatim>\<open>set_default("default")\<close> returns, the old file content
  is in the backup, and the parser that is written has a \<^verbatim>\<open>default\<close> section with no
  entries, every other section having the entries it had.
\<close>

theorem set_default_self_empties:
  assumes "has_section (loaded w) ''default''" and "p_defaults (loaded w) = []"
    and "load_error w = None" and "cred_file w = Some t" and "write_fails_at w = None"
  shows "\<exists>w'. set_default ''default'' w = (Returns (), w')
    \<and> cred_file w' = Some (cp_write (config w'))
    \<and> bak_file w' = Some t
    \<and> has_section (config w') ''default''
    \<and> entries (config w') ''default'' = []
    \<and> (\<forall>n. n \<noteq> ''default'' \<longrightarrow> entries (config w') n = entries (loaded w) n)"
proof -
  let ?c = "reset_default (loaded w)"
  have c: "contains (loaded w) ''default''"
    using assms(1) by (simp add: contains_def)
  have g: "getitem ?c ''default'' = Inr ''default''"
    by (simp add: getitem_def has_section_reset_default)
  have d: "p_defaults ?c = []"
    using assms(2) by (simp add: reset_default_def)
  have o: "proxy_options ?c ''default'' = Inr []"
    using map_of_reset_default [of "loaded w" "''default''"] d
    by (simp add: proxy_options_def default_section_def options_def entries_reset_default)
  have "set_default ''default'' w
      = (Returns (), w\<lparr>bak_file := Some t, config := ?c, cred_file := Some (cp_write ?c)\<rparr>)"
    using assms(5)
    by (simp add: set_default_eq [OF assms(3) c assms(4)] seq_def ask_config_def g o
        write_file_def)
  then show ?thesis
    by (simp add: entries_reset_default has_section_reset_default)
qed

text \<open>The theorem at a file with the alias and one profile.\<close>

theorem set_default_self_empties_witness:
  "has_section (loaded (AwsCredentialsManager (Some ''[default]\<newline>k = v\<newline>[work]\<newline>k = w\<newline>'') None)) ''default''
   \<and> (\<exists>w'. set_default ''default''
             (AwsCredentialsManager (Some ''[default]\<newline>k = v\<newline>[work]\<newline>k = w\<newline>'') None)
           = (Returns (), w')
        \<and> cred_file w' = Some (cp_write (config w'))
        \<and> entries (config w') ''default'' = [])"
proof -
  let ?w = "AwsCredentialsManager (Some ''[default]\<newline>k = v\<newline>[work]\<newline>k = w\<newline>'') None"
  have h: "has_section (loaded ?w) ''default''" "p_defaults (loaded ?w) = []"
    "load_error ?w = None" "cred_file ?w = Some ''[default]\<newline>k = v\<newline>[work]\<newline>k = w\<newline>''"
    "write_fails_at ?w = None"
    by code_simp+
  from set_default_self_empties [OF h] h(1) show ?thesis by blast
qed

text \<open>
  The claim as it was stated fails when the file has a \<^verbatim>\<open>[DEFAULT]\<close> section: the
  emptied \<^verbatim>\<open>default\<close> section still shows the options it inherits, and the loop
  copies them into it.
\<close>

theorem set_default_self_empties_counterexample:
  "has_section (loaded (AwsCredentialsManager (Some ''[DEFAULT]\<newline>region = eu\<newline>[default]\<newline>k = v\<newline>'') None)) ''default''
   \<and> set_default ''default''
        (AwsCredentialsManager (Some ''[DEFAULT]\<newline>region = eu\<newline>[default]\<newline>k = v\<newline>'') None)
     = (Returns (),
        \<lparr>config = \<lparr>p_defaults = [(''region'', ''eu'')],
                    p_sections = [(''default'', [(''region'', ''eu'')])]\<rparr>,
         cred_file = Some ''[DEFAULT]\<newline>region = eu\<newline>\<newline>[default]\<newline>region = eu\<newline>\<newline>'',
         bak_file = Some ''[DEFAULT]\<newline>region = eu\<newline>[default]\<newline>k = v\<newline>'',
         write_fails_at = None\<rparr>)"
  by code_simp

lemma interpolate_plain: "CHR ''%'' \<notin> set v \<Longrightarrow> interpolate_some m (Suc d) v = Inr v"
  by (induction v) auto

lemma proxy_getitem_Inr:
  assumes "proxy_getitem c name k = Inr v" and "map_of (p_sections c) name = Some d"
    and "\<And>k v. map_of (d @ p_defaults c) k = Some v \<Longrightarrow> CHR ''%'' \<notin> set v"
  shows "map_of (d @ p_defaults c) (optionxform k) = Some v"
proof -
  from assms(1,2) obtain v0 where v0: "map_of (d @ p_defaults c) (optionxform k) = Some v0"
    and i: "before_get (map_of (d @ p_defaults c)) v0 = Inr v"
    by (auto simp: proxy_getitem_def cp_get_def unify_values_def
        split: if_splits option.splits sum.splits)
  from assms(3) [OF v0] have "before_get (map_of (d @ p_defaults c)) v0 = Inr v0"
    by (simp add: before_get_def numeral_eq_Suc interpolate_plain)
  with i v0 show ?thesis by simp
qed

lemma copy_keys_Returns:
  assumes "copy_keys name ks w = (Returns (), w')"
    and "name \<noteq> ''default''" and "map_of (p_sections (config w)) name = Some d"
    and "\<And>k v. map_of (d @ p_defaults (config w)) k = Some v \<Longrightarrow> CHR ''%'' \<notin> set v"
  shows "entries (config w') ''default'' =
           fold (\<lambda>k. AList.update (optionxform k)
                  (the (map_of (d @ p_defaults (config w)) (optionxform k))))
             ks (entries (config w) ''default'')
    \<and> (\<forall>n. n \<noteq> ''default'' \<longrightarrow> entries (config w') n = entries (config w) n)
    \<and> p_defaults (config w') = p_defaults (config w)
    \<and> sections (config w') = sections (config w)
    \<and> cred_file w' = cred_file w \<and> bak_file w' = bak_file w
    \<and> write_fails_at w' = write_fails_at w"
  using assms
proof (induction ks arbitrary: w)
  case Nil
  then show ?case by simp
next
  case (Cons k ks)
  from Cons.prems(1) obtain v c where
    g: "proxy_getitem (config w) name k = Inr v"
    and s: "setitem ''default'' k v (config w) = Inr c"
    and r: "copy_keys name ks (w\<lparr>config := c\<rparr>) = (Returns (), w')"
    by (auto simp: step_Returns)
  have dn: "''default'' \<noteq> []" "''default'' \<noteq> default_section"
    by (simp_all add: default_section_def)
  note si = setitem_Inr [OF s dn]
  have v: "map_of (d @ p_defaults (config w)) (optionxform k) = Some v"
    by (rule proxy_getitem_Inr [OF g Cons.prems(3)]) (rule Cons.prems(4))
  have c_def: "p_defaults c = p_defaults (config w)" by (subst si(2)) simp
  have c_name: "map_of (p_sections c) name = Some d"
    using Cons.prems(2,3) by (subst si(2)) (simp add: AList.update_conv')
  have c_default: "entries c ''default'' = AList.update (optionxform k) v (entries (config w) ''default'')"
    by (subst si(2)) (simp add: entries_update)
  have c_other: "entries c n = entries (config w) n" if "n \<noteq> ''default''" for n
    using that by (subst si(2)) (simp add: entries_update)
  have c_sections: "sections c = sections (config w)"
    by (subst si(2)) (rule sections_update [OF si(1)])
  have "entries (config w') ''default'' =
           fold (\<lambda>k. AList.update (optionxform k)
                  (the (map_of (d @ p_defaults (config (w\<lparr>config := c\<rparr>))) (optionxform k))))
             ks (entries (config (w\<lparr>config := c\<rparr>)) ''default'')
    \<and> (\<forall>n. n \<noteq> ''default'' \<longrightarrow> entries (config w') n = entries (config (w\<lparr>config := c\<rparr>)) n)
    \<and> p_defaults (config w') = p_defaults (config (w\<lparr>config := c\<rparr>))
    \<and> sections (config w') = sections (config (w\<lparr>config := c\<rparr>))
    \<and> cred_file w' = cred_file (w\<lparr>config := c\<rparr>) \<and> bak_file w' = bak_file (w\<lparr>config := c\<rparr>)
    \<and> write_fails_at w' = write_fails_at (w\<lparr>config := c\<rparr>)"
    using Cons.prems(4)
    by (intro Cons.IH [OF r Cons.prems(2)]) (simp_all add: c_name c_def)
  moreover have "the (map_of (d @ p_defaults (config w)) (optionxform k)) = v"
    using v by simp
  ultimately show ?case
    by (simp add: c_def c_default c_other c_sections)
qed

lemma fold_update_fresh:
  "distinct ks \<Longrightarrow> set ks \<inter> set (map fst acc) = {} \<Longrightarrow>
   fold (\<lambda>k. AList.update k (f k)) ks acc = acc @ map (\<lambda>k. (k, f k)) ks"
proof (induction ks arbitrary: acc)
  case Nil
  then show ?case by simp
next
  case (Cons k ks)
  from Cons.prems have "AList.update k (f k) acc = acc @ [(k, f k)]"
    by (intro update_new) auto
  moreover from Cons.prems have "set ks \<inter> set (map fst (acc @ [(k, f k)])) = {}"
    by auto
  ultimately show ?case
    using Cons.IH [of "acc @ [(k, f k)]"] Cons.prems(1) by simp
qed

lemma map_lookup_pairs:
  assumes "\<And>k v. (k, v) \<in> set xs \<Longrightarrow> f k = v"
  shows "map (\<lambda>k. (k, f k)) (map fst xs) = xs"
proof -
  have "map (\<lambda>k. (k, f k)) (map fst xs) = map (\<lambda>p. (fst p, f (fst p))) xs"
    by (simp add: comp_def)
  also have "\<dots> = map (\<lambda>p. p) xs"
    by (rule map_cong) (auto simp: assms)
  finally show ?thesis by simp
qed

lemma map_lookup_own:
  "distinct (map fst d) \<Longrightarrow> map (\<lambda>k. (k, the (map_of (d @ ds) k))) (map fst d) = d"
  by (rule map_lookup_pairs) (simp add: map_add_def)

lemma map_lookup_inherited:
  assumes "distinct (map fst ds)"
  shows "map (\<lambda>k. (k, the (map_of (d @ ds) k))) (filter (\<lambda>k. k \<notin> set (map fst d)) (map fst ds))
       = filter (\<lambda>kv. fst kv \<notin> set (map fst d)) ds"
proof -
  have "map (\<lambda>k. (k, the (map_of (d @ ds) k))) (map fst (filter (\<lambda>kv. fst kv \<notin> set (map fst d)) ds))
      = filter (\<lambda>kv. fst kv \<notin> set (map fst d)) ds"
  proof (rule map_lookup_pairs)
    fix k v
    assume "(k, v) \<in> set (filter (\<lambda>kv. fst kv \<notin> set (map fst d)) ds)"
    then have "(k, v) \<in> set ds" and "map_of d k = None"
      by (auto simp: map_of_eq_None_iff)
    with assms show "the (map_of (d @ ds) k) = v"
      by (simp add: map_add_def)
  qed
  then show ?thesis by (simp add: filter_map comp_def)
qed

lemma wf_entries: "wf_config c \<Longrightarrow> wf_dict (entries c n)"
proof -
  assume wf: "wf_config c"
  show ?thesis
  proof (cases "map_of (p_sections c) n")
    case None
    then show ?thesis by (simp add: entries_def wf_dict_Nil)
  next
    case (Some d)
    then have "(n, d) \<in> set (p_sections c)"
      by (rule map_of_SomeD)
    with wf Some show ?thesis
      by (force simp: entries_def wf_config_def wf_sections_def)
  qed
qed

lemma seq_Returns_iff:
  "(seq f k w = (Returns a, w')) = (\<exists>x w1. f w = (Returns x, w1) \<and> k x w1 = (Returns a, w'))"
proof (cases "f w")
  case (Pair r w1)
  then show ?thesis by (cases r) (simp_all add: seq_def)
qed

lemma set_default_effect:
  assumes ret: "set_default source_profile w = (Returns (), w')"
    and src: "has_section (loaded w) source_profile" "source_profile \<noteq> ''default''"
    and wf: "wf_config (config w)"
    and plain: "\<forall>kv \<in> set (items (loaded w) source_profile). CHR ''%'' \<notin> set (snd kv)"
  shows "entries (config w') ''default'' = items (loaded w) source_profile"
    and "\<forall>n. n \<noteq> ''default'' \<longrightarrow> entries (config w') n = entries (loaded w) n"
    and "p_defaults (config w') = p_defaults (loaded w)"
    and "cred_file w' = Some (cp_write (config w'))"
    and "bak_file w' = cred_file w"
proof -
  let ?c = "loaded w"
  let ?r = "reset_default ?c"
  let ?d = "entries ?c source_profile"
  have wfl: "wf_config ?c" using wf by (rule wf_loaded)
  have nd: "source_profile \<noteq> default_section"
    using wfl src(1) by (force simp: wf_config_def wf_sections_def has_section_def)
  have le: "load_error w = None"
    using ret by (cases "load_error w") (simp_all add: set_default_def seq_def load_eq)
  have cont: "contains ?c source_profile"
    using src(1) by (simp add: contains_def)
  obtain t where t: "cred_file w = Some t"
    using ret le cont
    by (cases "cred_file w") (simp_all add: set_default_def seq_def load_eq copy_to_backup_def)
  have g: "getitem ?r source_profile = Inr source_profile"
    using src(1) by (simp add: getitem_def has_section_reset_default)
  have m: "map_of (p_sections ?r) source_profile = Some ?d"
    using map_of_reset_default [of ?c source_profile] src
    by (simp add: entries_reset_default)
  have dr: "p_defaults ?r = p_defaults ?c" by (simp add: reset_default_def)
  let ?keys = "map fst ?d @ filter (\<lambda>k. k \<notin> set (map fst ?d)) (map fst (p_defaults ?c))"
  have o: "proxy_options ?r source_profile = Inr ?keys"
    using nd m by (simp add: proxy_options_def options_def dr)
  let ?w3 = "w\<lparr>bak_file := Some t, config := ?r\<rparr>"
  from ret obtain w4 where ck: "copy_keys source_profile ?keys ?w3 = (Returns (), w4)"
    and wr: "write_file w4 = (Returns (), w')"
    unfolding set_default_eq [OF le cont t]
    by (auto simp: seq_ask_config_Returns g o seq_Returns_iff [of "copy_keys _ _"])
  have pl: "CHR ''%'' \<notin> set v" if "map_of (?d @ p_defaults ?c) k = Some v" for k v
  proof -
    from that have "(k, v) \<in> set (items ?c source_profile)"
      by (auto simp: items_def map_add_def map_of_eq_None_iff
          dest!: map_of_SomeD split: option.splits)
    with plain show ?thesis by auto
  qed
  have ck': "entries (config w4) ''default'' =
           fold (\<lambda>k. AList.update (optionxform k)
                  (the (map_of (?d @ p_defaults (config ?w3)) (optionxform k))))
             ?keys (entries (config ?w3) ''default'')
    \<and> (\<forall>n. n \<noteq> ''default'' \<longrightarrow> entries (config w4) n = entries (config ?w3) n)
    \<and> p_defaults (config w4) = p_defaults (config ?w3)
    \<and> sections (config w4) = sections (config ?w3)
    \<and> cred_file w4 = cred_file ?w3 \<and> bak_file w4 = bak_file ?w3
    \<and> write_fails_at w4 = write_fails_at ?w3"
    by (rule copy_keys_Returns [OF ck src(2)]) (simp_all add: m dr pl)
  have wfd: "wf_dict ?d" "wf_dict (p_defaults ?c)"
    using wfl by (simp_all add: wf_entries) (simp add: wf_config_def)
  have lk: "optionxform k = k" if "k \<in> set ?keys" for k
    using that wfd by (auto simp: wf_dict_def)
  have dk: "distinct ?keys"
    using wfd by (auto simp: wf_dict_def)
  have "fold (\<lambda>k. AList.update (optionxform k) (the (map_of (?d @ p_defaults ?c) (optionxform k)))) ?keys []
      = fold (\<lambda>k. AList.update k (the (map_of (?d @ p_defaults ?c) k))) ?keys []"
    by (rule fold_cong) (simp_all add: lk)
  also have "\<dots> = map (\<lambda>k. (k, the (map_of (?d @ p_defaults ?c) k))) ?keys"
    using fold_update_fresh [OF dk, of "[]"] by simp
  also have "\<dots> = items ?c source_profile"
    using wfd map_lookup_own [of ?d "p_defaults ?c"] map_lookup_inherited [of "p_defaults ?c" ?d]
    by (simp add: items_def wf_dict_def)
  finally have fd: "fold (\<lambda>k. AList.update (optionxform k) (the (map_of (?d @ p_defaults ?c) (optionxform k)))) ?keys []
      = items ?c source_profile" .
  from wr have w': "w' = w4\<lparr>cred_file := Some (cp_write (config w4))\<rparr>"
    by (simp add: write_file_Returns)
  show "entries (config w') ''default'' = items (loaded w) source_profile"
    using ck' fd by (simp add: w' dr entries_reset_default)
  show "\<forall>n. n \<noteq> ''default'' \<longrightarrow> entries (config w') n = entries (loaded w) n"
    using ck' by (simp add: w' entries_reset_default)
  show "p_defaults (config w') = p_defaults (loaded w)"
    using ck' by (simp add: w' dr)
  show "cred_file w' = Some (cp_write (config w'))" by (simp add: w')
  show "bak_file w' = cred_file w" using ck' by (simp add: w' t)
qed

subsection \<open>C1: what \<^verbatim>\<open>set_default\<close> leaves in \<^verbatim>\<open>default\<close>\<close>

text \<open>
  Claim C1, as amended. For every well-formed state of the manager and every
  \<open>source_profile\<close> other than \<^verbatim>\<open>default\<close> itself that is a section of the loaded
  store and shows no value with a percent sign: when \<^verbatim>\<open>set_default(source_profile)\<close>
  returns, the file holds the text of the parser, and in that parser the entries of
  \<^verbatim>\<open>default\<close> are exactly the items of the source at the time of the call, in their
  order, whatever \<^verbatim>\<open>default\<close> held before: the source's own entries, followed by the
  \<^verbatim>\<open>DEFAULT\<close> options it inherits. Without \<^verbatim>\<open>DEFAULT\<close> options they are exactly
  the source's own entries. The source keeps its entries.
\<close>

theorem set_default_copies_source:
  assumes "set_default source_profile w = (Returns (), w')"
    and "has_section (loaded w) source_profile" and "source_profile \<noteq> ''default''"
    and "wf_config (config w)"
    and "\<forall>kv \<in> set (items (loaded w) source_profile). CHR ''%'' \<notin> set (snd kv)"
  shows "cred_file w' = Some (cp_write (config w'))
    \<and> entries (config w') ''default'' = items (loaded w) source_profile
    \<and> (p_defaults (loaded w) = [] \<longrightarrow>
         entries (config w') ''default'' = entries (loaded w) source_profile)
    \<and> entries (config w') source_profile = entries (loaded w) source_profile"
proof -
  note eff = set_default_effect [OF assms]
  have "p_defaults (loaded w) = [] \<Longrightarrow> items (loaded w) source_profile = entries (loaded w) source_profile"
    by (simp add: items_def)
  with eff assms(3) show ?thesis by simp
qed

text \<open>
  The theorem at the example of the specification: \<^verbatim>\<open>work\<close> has two keys, and
  \<^verbatim>\<open>default\<close> had one of them and a third.
\<close>

theorem set_default_copies_source_witness:
  "set_default ''work''
     (AwsCredentialsManager (Some ''[default]\<newline>a = 0\<newline>c = 3\<newline>[work]\<newline>a = 1\<newline>b = 2\<newline>'') None)
   = (Returns (),
      \<lparr>config = \<lparr>p_defaults = [],
          p_sections = [(''work'', [(''a'', ''1''), (''b'', ''2'')]),
                        (''default'', [(''a'', ''1''), (''b'', ''2'')])]\<rparr>,
       cred_file = Some ''[work]\<newline>a = 1\<newline>b = 2\<newline>\<newline>[default]\<newline>a = 1\<newline>b = 2\<newline>\<newline>'',
       bak_file = Some ''[default]\<newline>a = 0\<newline>c = 3\<newline>[work]\<newline>a = 1\<newline>b = 2\<newline>'',
       write_fails_at = None\<rparr>)
   \<and> entries (loaded (AwsCredentialsManager
         (Some ''[default]\<newline>a = 0\<newline>c = 3\<newline>[work]\<newline>a = 1\<newline>b = 2\<newline>'') None)) ''work''
       = [(''a'', ''1''), (''b'', ''2'')]"
proof -
  let ?w = "AwsCredentialsManager (Some ''[default]\<newline>a = 0\<newline>c = 3\<newline>[work]\<newline>a = 1\<newline>b = 2\<newline>'') None"
  let ?w' = "\<lparr>config = \<lparr>p_defaults = [],
          p_sections = [(''work'', [(''a'', ''1''), (''b'', ''2'')]),
                        (''default'', [(''a'', ''1''), (''b'', ''2'')])]\<rparr>,
       cred_file = Some ''[work]\<newline>a = 1\<newline>b = 2\<newline>\<newline>[default]\<newline>a = 1\<newline>b = 2\<newline>\<newline>'',
       bak_file = Some ''[default]\<newline>a = 0\<newline>c = 3\<newline>[work]\<newline>a = 1\<newline>b = 2\<newline>'',
       write_fails_at = None\<rparr>"
  have r: "set_default ''work'' ?w = (Returns (), ?w')" by code_simp
  have h: "has_section (loaded ?w) ''work''" "''work'' \<noteq> ''default''" "wf_config (config ?w)"
    "\<forall>kv \<in> set (items (loaded ?w) ''work''). CHR ''%'' \<notin> set (snd kv)"
    by code_simp+
  have d: "p_defaults (loaded ?w) = []" by code_simp
  from set_default_copies_source [OF r h] d
  have "entries (config ?w') ''default'' = entries (loaded ?w) ''work''" by blast
  moreover have "entries (config ?w') ''default'' = [(''a'', ''1''), (''b'', ''2'')]"
    by code_simp
  ultimately have "entries (loaded ?w) ''work'' = [(''a'', ''1''), (''b'', ''2'')]"
    by (simp only:)
  with r show ?thesis by (rule conjI)
qed

text \<open>
  The claim as it was stated fails when the source is \<^verbatim>\<open>default\<close> itself: the section
  exists, the call returns, and the entries it had at the time of the call are gone.
\<close>

theorem set_default_copies_source_counterexample:
  "has_section (loaded (AwsCredentialsManager (Some ''[default]\<newline>a = 1\<newline>b = 2\<newline>'') None)) ''default''
   \<and> entries (loaded (AwsCredentialsManager (Some ''[default]\<newline>a = 1\<newline>b = 2\<newline>'') None)) ''default''
       = [(''a'', ''1''), (''b'', ''2'')]
   \<and> set_default ''default'' (AwsCredentialsManager (Some ''[default]\<newline>a = 1\<newline>b = 2\<newline>'') None)
     = (Returns (),
        \<lparr>config = \<lparr>p_defaults = [], p_sections = [(''default'', [])]\<rparr>,
         cred_file = Some ''[default]\<newline>\<newline>'',
         bak_file = Some ''[default]\<newline>a = 1\<newline>b = 2\<newline>'',
         write_fails_at = None\<rparr>)"
  by code_simp

lemma keeps_files_load: "keeps_files load"
  by (simp add: keeps_files_def load_eq)

lemma keeps_files_on_config: "keeps_files (on_config f)"
  by (simp add: keeps_files_def on_config_def split: sum.splits)

lemma keeps_files_ask_config: "keeps_files (ask_config f)"
  by (simp add: keeps_files_def ask_config_def split: sum.splits)

lemma keeps_files_seq:
  assumes "keeps_files f" and "\<And>a. keeps_files (g a)"
  shows "keeps_files (seq f g)"
  unfolding keeps_files_def
proof (intro allI)
  fix w
  obtain r w1 where f: "f w = (r, w1)" by (cases "f w")
  with assms(1) have w1: "cred_file w1 = cred_file w" "bak_file w1 = bak_file w"
      "write_fails_at w1 = write_fails_at w"
    by (auto simp: keeps_files_def dest: spec [of _ w])
  show "cred_file (snd (seq f g w)) = cred_file w \<and> bak_file (snd (seq f g w)) = bak_file w
      \<and> write_fails_at (snd (seq f g w)) = write_fails_at w"
  proof (cases r)
    case (Returns a)
    with f w1 assms(2) [of a] show ?thesis
      by (auto simp: seq_def keeps_files_def dest: spec [of _ w1])
  next
    case (Raises x)
    with f w1 show ?thesis by (simp add: seq_def)
  qed
qed

lemma keeps_files_copy_keys: "keeps_files (copy_keys name ks)"
proof (induction ks)
  case Nil
  then show ?case by (simp add: keeps_files_def)
next
  case (Cons k ks)
  then show ?case
    by (auto intro!: keeps_files_seq keeps_files_ask_config keeps_files_on_config)
qed

lemma guarded_write_file: "guarded write_file"
  by (auto simp: guarded_def write_file_def Let_def file_outcome_def split: option.splits)

lemma file_outcome_cong:
  "cred_file w1 = cred_file w \<Longrightarrow> write_fails_at w1 = write_fails_at w
    \<Longrightarrow> file_outcome w1 rw = file_outcome w rw"
  by (simp add: file_outcome_def)

lemma guarded_seq:
  assumes "keeps_files f" and "\<And>a. guarded (g a)"
  shows "guarded (seq f g)"
  unfolding guarded_def
proof (intro allI)
  fix w
  obtain r w1 where f: "f w = (r, w1)" by (cases "f w")
  with assms(1) have w1: "cred_file w1 = cred_file w" "bak_file w1 = bak_file w"
      "write_fails_at w1 = write_fails_at w"
    by (auto simp: keeps_files_def dest: spec [of _ w])
  show "bak_file (snd (seq f g w)) = bak_file w
      \<and> write_fails_at (snd (seq f g w)) = write_fails_at w \<and> file_outcome w (seq f g w)"
  proof (cases r)
    case (Returns a)
    with f have "seq f g w = g a w1" by (simp add: seq_def)
    moreover from assms(2) [of a] have "bak_file (snd (g a w1)) = bak_file w1"
      "write_fails_at (snd (g a w1)) = write_fails_at w1" "file_outcome w1 (g a w1)"
      by (simp_all add: guarded_def)
    ultimately show ?thesis
      using w1 file_outcome_cong [OF w1(1,3), of "g a w1"] by simp
  next
    case (Raises x)
    with f w1 show ?thesis by (simp add: seq_def file_outcome_def)
  qed
qed

lemma after_backup:
  assumes "guarded g"
  shows "backed_up w (seq load (\<lambda>_. seq copy_to_backup (\<lambda>_. g)) w)
    \<and> file_outcome w (seq load (\<lambda>_. seq copy_to_backup (\<lambda>_. g)) w)"
proof (cases "load_error w")
  case (Some x)
  then show ?thesis by (simp add: seq_def load_eq backed_up_def file_outcome_def)
next
  case None
  show ?thesis
  proof (cases "cred_file w")
    case n: None
    with None show ?thesis
      by (simp add: seq_def load_eq copy_to_backup_def backed_up_def file_outcome_def)
  next
    case (Some t)
    let ?w2 = "w\<lparr>config := loaded w, bak_file := Some t\<rparr>"
    have "seq load (\<lambda>_. seq copy_to_backup (\<lambda>_. g)) w = g ?w2"
      using None Some by (simp add: seq_def load_eq copy_to_backup_def)
    moreover from assms have "bak_file (snd (g ?w2)) = bak_file ?w2" "file_outcome ?w2 (g ?w2)"
      by (auto simp: guarded_def)
    moreover have "file_outcome ?w2 (g ?w2) = file_outcome w (g ?w2)"
      by (rule file_outcome_cong) simp_all
    ultimately show ?thesis
      using Some by (simp add: backed_up_def)
  qed
qed

subsection \<open>C6: the backup and a write that fails\<close>

text \<open>
  Claim C6, as amended. For every call of \<^verbatim>\<open>add_profile\<close> or \<^verbatim>\<open>set_default\<close>, in
  every state and whether it returns or raises: whenever the call leaves the credentials
  file different from what it was, the backup file holds, in full, what it was, so the
  state before the call can be recovered from the backup. The credentials file itself is
  left in one of three ways: as it was, or holding the whole text of the parser (the call
  returned), or, when the write fails after \<open>k\<close> characters, holding only the first
  \<open>k\<close> characters of that text.
\<close>

theorem backup_before_write:
  "backed_up w (add_profile name access_key secret_key session_token w)
   \<and> file_outcome w (add_profile name access_key secret_key session_token w)
   \<and> backed_up w (set_default source_profile w)
   \<and> file_outcome w (set_default source_profile w)"
proof -
  have a: "guarded
     (seq (on_config (\<lambda>c. if \<not> has_section c name then add_section name c else Inr c)) (\<lambda>_.
      seq (on_config (setitem name ''aws_access_key_id'' access_key)) (\<lambda>_.
      seq (on_config (setitem name ''aws_secret_access_key'' secret_key)) (\<lambda>_.
      seq (on_config (\<lambda>c. if session_token \<noteq> []
                           then setitem name ''aws_session_token'' session_token c else Inr c)) (\<lambda>_.
      write_file)))))"
    by (intro guarded_seq keeps_files_on_config guarded_write_file)
  have s: "guarded
     (seq (on_config (\<lambda>c. if \<not> has_section c ''default''
                                then add_section ''default'' c else Inr c)) (\<lambda>_.
      seq (on_config (\<lambda>c. Inr (remove_section ''default'' c))) (\<lambda>_.
      seq (on_config (add_section ''default'')) (\<lambda>_.
      seq (ask_config (\<lambda>c. getitem c source_profile)) (\<lambda>name.
      seq (ask_config (\<lambda>c. proxy_options c name)) (\<lambda>keys.
      seq (copy_keys name keys) (\<lambda>_.
      write_file)))))))"
    by (intro guarded_seq keeps_files_on_config keeps_files_ask_config keeps_files_copy_keys
        guarded_write_file)
  have sd: "set_default source_profile w =
      (if load_error w = None \<and> contains (loaded w) source_profile
       then seq load (\<lambda>_. seq copy_to_backup (\<lambda>_.
         seq (on_config (\<lambda>c. if \<not> has_section c ''default''
                                then add_section ''default'' c else Inr c)) (\<lambda>_.
         seq (on_config (\<lambda>c. Inr (remove_section ''default'' c))) (\<lambda>_.
         seq (on_config (add_section ''default'')) (\<lambda>_.
         seq (ask_config (\<lambda>c. getitem c source_profile)) (\<lambda>name.
         seq (ask_config (\<lambda>c. proxy_options c name)) (\<lambda>keys.
         seq (copy_keys name keys) (\<lambda>_.
         write_file)))))))) w
       else load w)"
    by (cases "load_error w") (simp_all add: set_default_def seq_def load_eq)
  have l: "backed_up w (load w) \<and> file_outcome w (load w)"
    by (simp add: load_eq backed_up_def file_outcome_def)
  show ?thesis
    using after_backup [OF a, of w] after_backup [OF s, of w] l
    by (simp add: add_profile_def sd)
qed

text \<open>
  The theorem where the write fails after three characters: the backup holds the old
  text, the file holds the first three characters of the new one.
\<close>

theorem backup_before_write_witness:
  "add_profile ''work'' ''AK'' ''SK'' []
     \<lparr>config = ConfigParser, cred_file = Some ''[work]\<newline>k = v\<newline>'', bak_file = None,
      write_fails_at = Some 3\<rparr>
   = (Raises OSError,
      \<lparr>config = \<lparr>p_defaults = [],
          p_sections = [(''work'', [(''k'', ''v''), (''aws_access_key_id'', ''AK''),
                                    (''aws_secret_access_key'', ''SK'')])]\<rparr>,
       cred_file = Some ''[wo'', bak_file = Some ''[work]\<newline>k = v\<newline>'',
       write_fails_at = Some 3\<rparr>)
   \<and> bak_file (snd (add_profile ''work'' ''AK'' ''SK'' []
         \<lparr>config = ConfigParser, cred_file = Some ''[work]\<newline>k = v\<newline>'', bak_file = None,
          write_fails_at = Some 3\<rparr>))
     = Some ''[work]\<newline>k = v\<newline>''"
proof -
  let ?w = "\<lparr>config = ConfigParser, cred_file = Some ''[work]\<newline>k = v\<newline>'', bak_file = None,
      write_fails_at = Some 3\<rparr>"
  have r: "add_profile ''work'' ''AK'' ''SK'' [] ?w
   = (Raises OSError,
      \<lparr>config = \<lparr>p_defaults = [],
          p_sections = [(''work'', [(''k'', ''v''), (''aws_access_key_id'', ''AK''),
                                    (''aws_secret_access_key'', ''SK'')])]\<rparr>,
       cred_file = Some ''[wo'', bak_file = Some ''[work]\<newline>k = v\<newline>'',
       write_fails_at = Some 3\<rparr>)"
    by code_simp
  have "backed_up ?w (add_profile ''work'' ''AK'' ''SK'' [] ?w)"
    using backup_before_write [of ?w "''work''" "''AK''" "''SK''" "[]"] by blast
  then have "bak_file (snd (add_profile ''work'' ''AK'' ''SK'' [] ?w)) = Some ''[work]\<newline>k = v\<newline>''"
    unfolding backed_up_def r by simp
  with r show ?thesis by (rule conjI)
qed

text \<open>
  The claim as it was stated fails there: the operation failed, and the file is neither
  what it was before the call nor what the backup holds, but a cut-off text.
\<close>

theorem backup_before_write_counterexample:
  "add_profile ''work'' ''AK'' ''SK'' []
     \<lparr>config = ConfigParser, cred_file = Some ''[work]\<newline>k = v\<newline>'', bak_file = None,
      write_fails_at = Some 3\<rparr>
   = (Raises OSError,
      \<lparr>config = \<lparr>p_defaults = [],
          p_sections = [(''work'', [(''k'', ''v''), (''aws_access_key_id'', ''AK''),
                                    (''aws_secret_access_key'', ''SK'')])]\<rparr>,
       cred_file = Some ''[wo'', bak_file = Some ''[work]\<newline>k = v\<newline>'',
       write_fails_at = Some 3\<rparr>)"
  by code_simp

end
